theory Spec2Isabelle
  imports Complex_Main "HOL-Library.Char_ord" "HOL-Library.List_Lexorder" "HOL-Library.Multiset"
begin

chapter \<open>The embedding\<close>

section \<open>JavaScript values used by the tools\<close>

text \<open>
  A JavaScript string is modelled as a \<^typ>\<open>string\<close>: one \<^typ>\<open>char\<close> per code unit,
  for text whose code units are below 256 (ASCII and Latin-1).  Numbers that the tools
  obtain from \<^verbatim>\<open>parseInt\<close> on a run of digits, from \<^verbatim>\<open>length\<close> or by counting are
  natural numbers; the one quotient the tools compute is a binary64 value and is kept as the
  rational number it denotes.
\<close>

definition toLowerCaseChar :: "char \<Rightarrow> char" where
  "toLowerCaseChar c =
     (let n = (of_char c :: nat)
      in if (65 \<le> n \<and> n \<le> 90) \<or> (192 \<le> n \<and> n \<le> 222 \<and> n \<noteq> 215)
         then char_of (n + 32) else c)"

definition toLowerCase :: "string \<Rightarrow> string" where
  "toLowerCase s = map toLowerCaseChar s"

text \<open>\<^verbatim>\<open>s.startsWith(t, 0)\<close> and \<^verbatim>\<open>s.includes(t)\<close>.\<close>

definition startsWith :: "string \<Rightarrow> string \<Rightarrow> bool" where
  "startsWith s t = (take (length t) s = t)"

fun includesJS :: "string \<Rightarrow> string \<Rightarrow> bool" where
  "includesJS [] t = (t = [])"
| "includesJS (c # cs) t = (startsWith (c # cs) t \<or> includesJS cs t)"

definition isDigit :: "char \<Rightarrow> bool" where
  "isDigit c = (let n = (of_char c :: nat) in 48 \<le> n \<and> n \<le> 57)"

definition isAsciiLetter :: "char \<Rightarrow> bool" where
  "isAsciiLetter c =
     (let n = (of_char c :: nat) in (65 \<le> n \<and> n \<le> 90) \<or> (97 \<le> n \<and> n \<le> 122))"

text \<open>\<^verbatim>\<open>String(n)\<close> for a non-negative integer below \<^verbatim>\<open>1e21\<close>: its decimal digits.\<close>

definition digitChar :: "nat \<Rightarrow> char" where
  "digitChar d = char_of (48 + d)"

function numToString :: "nat \<Rightarrow> string" where
  "numToString n = (if n < 10 then [digitChar n] else numToString (n div 10) @ [digitChar (n mod 10)])"
  by pat_completeness auto
termination
  by (relation "measure id") auto

text \<open>
  \<^verbatim>\<open>new Set(xs)\<close> followed by iteration: a JavaScript set keeps its elements in the order
  of their first insertion.
\<close>

definition setAdd :: "'a list \<Rightarrow> 'a \<Rightarrow> 'a list" where
  "setAdd s x = (if x \<in> set s then s else s @ [x])"

definition newSet :: "'a list \<Rightarrow> 'a list" where
  "newSet xs = foldl setAdd [] xs"

subsection \<open>The binary64 quotient and \<^verbatim>\<open>toFixed(1)\<close>\<close>

text \<open>
  \<^verbatim>\<open>a / b\<close> on two integers is the binary64 number nearest to the exact quotient, ties to
  the even significand.  \<open>binary64\<close> rounds a rational \<open>q \<ge> 1\<close> to 53 significant bits
  (no overflow is modelled: the quotients below are averages of ratings).
\<close>

fun bitLength :: "nat \<Rightarrow> nat" where
  "bitLength n = (if n = 0 then 0 else Suc (bitLength (n div 2)))"

declare bitLength.simps [simp del]

definition roundHalfEven :: "rat \<Rightarrow> int" where
  "roundHalfEven x =
     (let f = \<lfloor>x\<rfloor>; r = x - of_int f
      in if r < 1 / 2 then f else if 1 / 2 < r then f + 1 else if even f then f else f + 1)"

definition binary64 :: "rat \<Rightarrow> rat" where
  "binary64 q =
     (let b = bitLength (nat \<lfloor>q\<rfloor>)
      in if b \<le> 53 then of_int (roundHalfEven (q * 2 ^ (53 - b))) / 2 ^ (53 - b)
         else of_int (roundHalfEven (q / 2 ^ (b - 53))) * 2 ^ (b - 53))"

text \<open>
  \<^verbatim>\<open>x.toFixed(1)\<close> for \<open>0 \<le> x < 1e21\<close>: the integer \<open>n\<close> with \<open>n / 10\<close> nearest to \<open>x\<close>
  (the larger one on a tie), written with one digit after the point.
\<close>

definition toFixed1 :: "rat \<Rightarrow> string" where
  "toFixed1 x =
     (let n = nat \<lfloor>x * 10 + 1 / 2\<rfloor>
      in numToString (n div 10) @ ''.'' @ [digitChar (n mod 10)])"

section \<open>WeeklySynthesis.ts\<close>

datatype category = ALGORITHM | SYSTEM

record Learning =
  fileName :: string
  path :: string
  date :: string
  title :: string
  content :: string
  category :: category
  rating :: "nat option"

record Pattern =
  theme :: string
  occurrences :: nat
  learnings :: "Learning list"
  insight :: string

record SynthesisResult =
  weekStart :: string
  weekEnd :: string
  totalLearnings :: nat
  patterns :: "Pattern list"
  topInsights :: "string list"
  lowRatings :: "Learning list"

subsection \<open>extractKeywords\<close>

text \<open>The character class \<^verbatim>\<open>[a-zA-Z0-9_-]\<close>.\<close>

definition tagChar :: "char \<Rightarrow> bool" where
  "tagChar c = (isAsciiLetter c \<or> isDigit c \<or> c = CHR ''_'' \<or> c = CHR ''-'')"

text \<open>
  \<^verbatim>\<open>content.match(/#[a-zA-Z0-9_-]+/g) || []\<close>: every match, left to right; a match is a
  \<^verbatim>\<open>#\<close> and the longest run of class characters after it, and the scan goes on behind it.
\<close>

function hashtags :: "string \<Rightarrow> string list" where
  "hashtags [] = []"
| "hashtags (c # cs) =
     (if c = CHR ''#'' \<and> takeWhile tagChar cs \<noteq> []
      then (c # takeWhile tagChar cs) # hashtags (dropWhile tagChar cs)
      else hashtags cs)"
  by pat_completeness auto
termination
  by (relation "measure length") (auto simp: length_dropWhile_le less_Suc_eq_le)

definition techTerms :: "string list" where
  "techTerms =
     [''bug'', ''fix'', ''error'', ''issue'', ''problem'',
      ''feature'', ''implement'', ''add'', ''create'',
      ''refactor'', ''optimize'', ''improve'',
      ''test'', ''debug'', ''deploy'',
      ''api'', ''database'', ''hook'', ''skill'',
      ''session'', ''memory'', ''learning'', ''context'']"

definition extractKeywords :: "string \<Rightarrow> string list" where
  "extractKeywords c =
     newSet (hashtags c @ filter (\<lambda>term. includesJS (toLowerCase c) term) techTerms)"

subsection \<open>generateInsight\<close>

text \<open>
  \<^verbatim>\<open>l.rating\<close> as a condition: \<^verbatim>\<open>undefined\<close> and \<^verbatim>\<open>0\<close> are falsy.
\<close>

definition ratingTruthy :: "Learning \<Rightarrow> bool" where
  "ratingTruthy l = (case rating l of None \<Rightarrow> False | Some r \<Rightarrow> r \<noteq> 0)"

text \<open>
  \<^verbatim>\<open>avgRating\<close>: the sum of the truthy ratings over their number.  With no such rating the
  quotient is \<^verbatim>\<open>0 / 0\<close>, that is \<^verbatim>\<open>NaN\<close>, here \<open>None\<close>.  The sum is exact as long as it is
  below \<open>2 ^ 53\<close>.
\<close>

definition avgRating :: "Learning list \<Rightarrow> rat option" where
  "avgRating ls =
     (let rated = filter ratingTruthy ls;
          total = foldl (\<lambda>sum l. sum + (case rating l of None \<Rightarrow> 0 | Some r \<Rightarrow> r)) (0::nat) rated
      in if rated = [] then None
         else Some (binary64 (of_nat total / of_nat (length rated))))"

definition lowRatingInsight :: "rat \<Rightarrow> string" where
  "lowRatingInsight a =
     ''Repeated low ratings (avg '' @ toFixed1 a @ ''/10) suggest this area needs improvement''"

definition bugInsight :: string where
  "bugInsight = ''Pattern of similar bugs - consider preventive measures or improved testing''"

definition debtInsight :: string where
  "debtInsight = ''Technical debt accumulation - schedule dedicated refactoring time''"

definition recurringInsight :: "nat \<Rightarrow> string" where
  "recurringInsight n =
     ''Recurring theme requiring attention - '' @ numToString n @ '' instances this week''"

text \<open>
  The rules below the rating rule, in the order of the source.
\<close>

definition themeInsight :: "string \<Rightarrow> Learning list \<Rightarrow> string" where
  "themeInsight th ls =
     (if includesJS th ''bug'' \<or> includesJS th ''fix'' \<or> includesJS th ''error'' then bugInsight
      else if includesJS th ''refactor'' \<or> includesJS th ''optimize'' then debtInsight
      else recurringInsight (length ls))"

text \<open>
  \<^verbatim>\<open>if (avgRating && avgRating < 5)\<close>: \<^verbatim>\<open>NaN\<close> and \<^verbatim>\<open>0\<close> are falsy.
\<close>

definition generateInsight :: "string \<Rightarrow> Learning list \<Rightarrow> string" where
  "generateInsight th ls =
     (case avgRating ls of
        Some a \<Rightarrow> if a \<noteq> 0 \<and> a < 5 then lowRatingInsight a else themeInsight th ls
      | None \<Rightarrow> themeInsight th ls)"

subsection \<open>identifyPatterns\<close>

text \<open>
  \<^verbatim>\<open>Map<string, Learning[]>\<close>: the entries in the order in which their keys were first set.
  \<open>groupPush\<close> is \<^verbatim>\<open>if (!grouped.has(k)) grouped.set(k, []); grouped.get(k)!.push(l)\<close>.
\<close>

type_synonym grouped = "(string \<times> Learning list) list"

definition groupPush :: "grouped \<Rightarrow> string \<Rightarrow> Learning \<Rightarrow> grouped" where
  "groupPush g k l =
     (if k \<in> fst ` set g
      then map (\<lambda>(k', items). if k' = k then (k', items @ [l]) else (k', items)) g
      else g @ [(k, [l])])"

definition groupLearning :: "grouped \<Rightarrow> Learning \<Rightarrow> grouped" where
  "groupLearning g l = foldl (\<lambda>g' k. groupPush g' k l) g (extractKeywords (content l))"

definition groupByKeyword :: "Learning list \<Rightarrow> grouped" where
  "groupByKeyword ls = foldl groupLearning [] ls"

text \<open>
  \<^verbatim>\<open>Array.from(new Set(items.map(l => l.path))).map(path => items.find(l => l.path === path)!)\<close>.
  Every path of the set is the path of an item, so \<^verbatim>\<open>find\<close> never comes back empty.
\<close>

definition uniqueLearnings :: "Learning list \<Rightarrow> Learning list" where
  "uniqueLearnings items =
     List.map_filter (\<lambda>p. find (\<lambda>l. path l = p) items) (newSet (map path items))"

text \<open>\<^verbatim>\<open>theme.replace(/^#/, '')\<close>.\<close>

fun stripHash :: "string \<Rightarrow> string" where
  "stripHash [] = []"
| "stripHash (c # cs) = (if c = CHR ''#'' then cs else c # cs)"

text \<open>The body of the loop over the entries of the map: the pattern pushed for one entry.\<close>

definition patternFor :: "string \<times> Learning list \<Rightarrow> Pattern option" where
  "patternFor e =
     (case e of (k, items) \<Rightarrow>
        if 3 \<le> length items
        then (let u = uniqueLearnings items
              in if 3 \<le> length u
                 then Some \<lparr>theme = stripHash k, occurrences = length u, learnings = u,
                            insight = generateInsight k u\<rparr>
                 else None)
        else None)"

text \<open>
  \<^verbatim>\<open>patterns.sort((a, b) => b.occurrences - a.occurrences)\<close>: a stable sort, larger counts
  first.
\<close>

definition identifyPatterns :: "Learning list \<Rightarrow> Pattern list" where
  "identifyPatterns ls =
     sort_key (\<lambda>p. - int (occurrences p)) (List.map_filter patternFor (groupByKeyword ls))"

text \<open>
  A keyword is retained when the loop over the map pushes a pattern for its entry.
\<close>

definition retained :: "Learning list \<Rightarrow> string \<Rightarrow> bool" where
  "retained ls k = list_ex (\<lambda>e. fst e = k \<and> patternFor e \<noteq> None) (groupByKeyword ls)"

subsection \<open>synthesize\<close>

definition synthesize :: "Learning list \<Rightarrow> string \<Rightarrow> string \<Rightarrow> SynthesisResult" where
  "synthesize ls ws we =
     (let ps = identifyPatterns ls
      in \<lparr>weekStart = ws, weekEnd = we, totalLearnings = length ls, patterns = ps,
          topInsights = map insight (take 5 ps),
          lowRatings = filter (\<lambda>l. case rating l of None \<Rightarrow> False | Some r \<Rightarrow> r \<noteq> 0 \<and> r \<le> 3) ls\<rparr>)"

section \<open>MemorySearch.ts\<close>

subsection \<open>The host: files and dates\<close>

text \<open>
  The tools read the file system through \<^verbatim>\<open>fs\<close> and \<^verbatim>\<open>Glob\<close>.  A call that throws is
  \<open>None\<close>.  \<open>globScan pattern cwd\<close> is the list of relative paths that
  \<^verbatim>\<open>new Glob(pattern).scan({cwd})\<close> yields.
\<close>

record mtime =
  time :: int
  fullYear :: nat
  monthIndex :: nat
  dayOfMonth :: nat

record fileSystem =
  existsSync :: "string \<Rightarrow> bool"
  readdirSync :: "string \<Rightarrow> string list option"
  statSync :: "string \<Rightarrow> mtime option"
  readFileSync :: "string \<Rightarrow> string option"
  globScan :: "string \<Rightarrow> string \<Rightarrow> string list"

text \<open>
  A \<^verbatim>\<open>Date\<close> is its time value, or invalid (time value \<^verbatim>\<open>NaN\<close>).  What
  \<^verbatim>\<open>new Date(year, month, day)\<close> and \<^verbatim>\<open>new Date(text)\<close> denote depends on the time zone
  and the engine, so both constructors are taken from the host.
\<close>

datatype jsDate = Date int | InvalidDate

record host =
  dateLocal :: "nat \<Rightarrow> int \<Rightarrow> nat \<Rightarrow> jsDate"
  dateParse :: "string \<Rightarrow> jsDate"

text \<open>\<^verbatim>\<open>a < b\<close>, \<^verbatim>\<open>a <= b\<close> on dates compare the time values; with \<^verbatim>\<open>NaN\<close> they are false.\<close>

fun dateLess :: "jsDate \<Rightarrow> jsDate \<Rightarrow> bool" where
  "dateLess (Date a) (Date b) = (a < b)"
| "dateLess _ _ = False"


text \<open>\<^verbatim>\<open>path.join(a, b)\<close> on segments that need no normalisation.\<close>

definition pathJoin :: "string \<Rightarrow> string \<Rightarrow> string" where
  "pathJoin a b = a @ ''/'' @ b"

text \<open>\<^verbatim>\<open>s.replace(t, r)\<close> with a string \<open>t\<close>: the first occurrence only.\<close>

fun replaceFirst :: "string \<Rightarrow> string \<Rightarrow> string \<Rightarrow> string" where
  "replaceFirst [] t r = (if t = [] then r else [])"
| "replaceFirst (c # cs) t r =
     (if startsWith (c # cs) t then r @ drop (length t) (c # cs) else c # replaceFirst cs t r)"

text \<open>\<^verbatim>\<open>parseInt\<close> on a run of decimal digits.\<close>

definition digitValue :: "char \<Rightarrow> nat" where
  "digitValue c = of_char c - 48"

definition parseInt :: "string \<Rightarrow> nat" where
  "parseInt ds = foldl (\<lambda>n c. 10 * n + digitValue c) 0 ds"

subsection \<open>Patterns of fixed length\<close>

text \<open>
  The regular expressions that pick dates out of names are sequences of character classes.
  \<open>searchPattern p s\<close> is the rest of \<open>s\<close> from the leftmost match on.
\<close>

type_synonym charClasses = "(char \<Rightarrow> bool) list"

fun matchesPrefix :: "charClasses \<Rightarrow> string \<Rightarrow> bool" where
  "matchesPrefix [] s = True"
| "matchesPrefix (p # ps) [] = False"
| "matchesPrefix (p # ps) (c # cs) = (p c \<and> matchesPrefix ps cs)"

fun searchPattern :: "charClasses \<Rightarrow> string \<Rightarrow> string option" where
  "searchPattern p [] = (if matchesPrefix p [] then Some [] else None)"
| "searchPattern p (c # cs) = (if matchesPrefix p (c # cs) then Some (c # cs) else searchPattern p cs)"

definition lit :: "string \<Rightarrow> charClasses" where
  "lit s = map (\<lambda>c x. x = c) s"

definition digits :: "nat \<Rightarrow> charClasses" where
  "digits n = replicate n isDigit"

text \<open>\<^verbatim>\<open>/WORK\/(\d{8})-\d{6}_/\<close>, \<^verbatim>\<open>/(\d{4}-\d{2}-\d{2})[-_]/\<close> and \<^verbatim>\<open>/(\d{4}-\d{2})\//\<close>.\<close>

definition workPattern :: charClasses where
  "workPattern = lit ''WORK/'' @ digits 8 @ lit ''-'' @ digits 6 @ lit ''_''"

definition isoDatePattern :: charClasses where
  "isoDatePattern = digits 4 @ lit ''-'' @ digits 2 @ lit ''-'' @ digits 2"

definition learningPattern :: charClasses where
  "learningPattern = isoDatePattern @ [\<lambda>c. c = CHR ''-'' \<or> c = CHR ''_'']"

definition yearMonthPattern :: charClasses where
  "yearMonthPattern = digits 4 @ lit ''-'' @ digits 2 @ lit ''/''"

subsection \<open>extractDate\<close>

definition extractDate :: "host \<Rightarrow> string \<Rightarrow> jsDate option" where
  "extractDate h filePath =
     (case searchPattern workPattern filePath of
        Some m \<Rightarrow>
          (let dateStr = take 8 (drop 5 m);
               year = parseInt (take 4 dateStr);
               month = int (parseInt (take 2 (drop 4 dateStr))) - 1;
               day = parseInt (take 2 (drop 6 dateStr))
           in Some (dateLocal h year month day))
      | None \<Rightarrow>
          (case searchPattern learningPattern filePath of
             Some m \<Rightarrow> Some (dateParse h (take 10 m))
           | None \<Rightarrow>
               (case searchPattern yearMonthPattern filePath of
                  Some m \<Rightarrow> Some (dateParse h (take 7 m @ ''-01''))
                | None \<Rightarrow> None)))"

subsection \<open>The compiled pattern\<close>

text \<open>
  \<^verbatim>\<open>new RegExp(query, "gi")\<close> is modelled by its matcher and its \<^verbatim>\<open>lastIndex\<close>: \<open>rx s p\<close>
  is the length of the match of the pattern that starts at index \<open>p\<close> of \<open>s\<close>, if there is
  one.  \<open>literalRegExp q\<close> is the matcher of a query without special characters.
\<close>

type_synonym regExp = "string \<Rightarrow> nat \<Rightarrow> nat option"

definition literalRegExp :: "string \<Rightarrow> regExp" where
  "literalRegExp q =
     (\<lambda>s p. if startsWith (drop p (toLowerCase s)) (toLowerCase q) then Some (length q) else None)"

text \<open>
  \<^verbatim>\<open>RegExpBuiltinExec\<close> of a global pattern: the search starts at \<^verbatim>\<open>lastIndex\<close> and moves
  right; the result is the start and the end of the match.
\<close>

function regExpExec :: "regExp \<Rightarrow> string \<Rightarrow> nat \<Rightarrow> (nat \<times> nat) option" where
  "regExpExec rx s i =
     (if length s < i then None
      else case rx s i of Some n \<Rightarrow> Some (i, i + n) | None \<Rightarrow> regExpExec rx s (Suc i))"
  by pat_completeness auto
termination
  by (relation "measure (\<lambda>(rx, s, i). Suc (length s) - i)") auto

declare regExpExec.simps [simp del]

text \<open>
  \<^verbatim>\<open>rx.test(s)\<close>: whether there is a match, and the new \<^verbatim>\<open>lastIndex\<close>: the end of the match,
  or \<open>0\<close> after a failure.
\<close>

definition test :: "regExp \<Rightarrow> string \<Rightarrow> nat \<Rightarrow> bool \<times> nat" where
  "test rx s lastIndex =
     (case regExpExec rx s lastIndex of None \<Rightarrow> (False, 0) | Some (b, e) \<Rightarrow> (True, e))"

lemma regExpExec_bounds:
  "regExpExec rx s i = Some (b, e) \<Longrightarrow> i \<le> b \<and> b \<le> length s \<and> b \<le> e"
proof (induction rx s i rule: regExpExec.induct)
  case (1 rx s i)
  show ?case
  proof (cases "rx s i")
    case None
    with "1.prems" have "regExpExec rx s (Suc i) = Some (b, e)" "\<not> length s < i"
      by (auto simp: regExpExec.simps [of rx s i] split: if_splits)
    with "1.IH" None show ?thesis by fastforce
  next
    case (Some n)
    with "1.prems" show ?thesis
      by (auto simp: regExpExec.simps [of rx s i] split: if_splits)
  qed
qed

text \<open>
  \<^verbatim>\<open>s.match(rx)\<close> with a global pattern: all matches from index \<open>0\<close> on, each search
  starting where the last match ended, one further after an empty match.  It leaves
  \<^verbatim>\<open>lastIndex\<close> at \<open>0\<close>.
\<close>

function matchAllFrom :: "regExp \<Rightarrow> string \<Rightarrow> nat \<Rightarrow> (nat \<times> nat) list" where
  "matchAllFrom rx s i =
     (case regExpExec rx s i of
        None \<Rightarrow> []
      | Some (b, e) \<Rightarrow> (b, e) # matchAllFrom rx s (if e = b then Suc e else e))"
  by pat_completeness auto
termination
proof (relation "measure (\<lambda>(rx, s, i). Suc (length s) - i)", goal_cases)
  case 1
  show ?case by simp
next
  case (2 rx s i x b e)
  then have "regExpExec rx s i = Some (b, e)" by simp
  from regExpExec_bounds [OF this] show ?case by auto
qed

declare matchAllFrom.simps [simp del]

definition matchCount :: "regExp \<Rightarrow> string \<Rightarrow> nat" where
  "matchCount rx s = length (matchAllFrom rx s 0)"

subsection \<open>searchFile\<close>

record MatchContext =
  lineNumber :: nat
  before :: "string list"
  matchLine :: string
  after :: "string list"

definition CONTEXT_LINES :: nat where
  "CONTEXT_LINES = 3"

text \<open>\<^verbatim>\<open>content.split("\n")\<close>.\<close>

fun splitLines :: "string \<Rightarrow> string list" where
  "splitLines [] = [[]]"
| "splitLines (c # cs) =
     (if c = CHR 0x0A then [] # splitLines cs
      else (case splitLines cs of [] \<Rightarrow> [[c]] | l # ls \<Rightarrow> (c # l) # ls))"

text \<open>\<^verbatim>\<open>lines.slice(a, b)\<close> for \<open>a, b\<close> within the bounds.\<close>

definition slice :: "'a list \<Rightarrow> nat \<Rightarrow> nat \<Rightarrow> 'a list" where
  "slice xs a b = take (b - a) (drop a xs)"

text \<open>
  The loop over the lines, from line \<open>i\<close> on, with the pattern's \<^verbatim>\<open>lastIndex\<close>: the matches
  pushed and the \<^verbatim>\<open>lastIndex\<close> that the loop leaves behind.
\<close>

function searchLines :: "regExp \<Rightarrow> string list \<Rightarrow> nat \<Rightarrow> nat \<Rightarrow> MatchContext list \<times> nat" where
  "searchLines rx lines i lastIndex =
     (if i < length lines
      then (case test rx (lines ! i) lastIndex of
              (True, lastIndex') \<Rightarrow>
                (case searchLines rx lines (Suc i) lastIndex' of
                   (ms, final) \<Rightarrow>
                     (\<lparr>lineNumber = i + 1,
                       before = slice lines (max 0 (i - CONTEXT_LINES)) i,
                       matchLine = lines ! i,
                       after = slice lines (i + 1) (min (length lines) (i + 1 + CONTEXT_LINES))\<rparr> # ms,
                      final))
            | (False, lastIndex') \<Rightarrow> searchLines rx lines (Suc i) lastIndex')
      else ([], lastIndex))"
  by pat_completeness auto
termination
  by (relation "measure (\<lambda>(rx, lines, i, lastIndex). length lines - i)") auto

declare searchLines.simps [simp del]

text \<open>
  The console lines a call writes are part of its result.  \<open>searchFile\<close> writes none: its
  \<^verbatim>\<open>catch\<close> block is empty, a file that cannot be read gives no matches.
\<close>

datatype consoleLine = CouldNotRead string

definition searchFile ::
  "fileSystem \<Rightarrow> string \<Rightarrow> string \<Rightarrow> regExp \<Rightarrow> nat \<Rightarrow> (MatchContext list \<times> nat) \<times> consoleLine list" where
  "searchFile fs filePath query rx lastIndex =
     (case readFileSync fs filePath of
        Some text \<Rightarrow> (searchLines rx (splitLines text) 0 lastIndex, [])
      | None \<Rightarrow> (([], lastIndex), []))"

subsection \<open>getFilesToSearch\<close>

datatype fileType = ALGORITHM_t | SYSTEM_t | WORK_t

definition scanDir :: "fileSystem \<Rightarrow> string \<Rightarrow> string \<Rightarrow> fileType \<Rightarrow> (string \<times> fileType) list" where
  "scanDir fs dir pattern t =
     (if existsSync fs dir then map (\<lambda>f. (pathJoin dir f, t)) (globScan fs pattern dir) else [])"

definition getFilesToSearch ::
  "fileSystem \<Rightarrow> string \<Rightarrow> string option \<Rightarrow> (string \<times> fileType) list" where
  "getFilesToSearch fs MEMORY_DIR typeFilter =
     (if typeFilter = None \<or> typeFilter = Some [] \<or> typeFilter = Some ''WORK''
      then scanDir fs (pathJoin MEMORY_DIR ''WORK'') ''*/{summary.md,IDEAL.md,META.yaml}'' WORK_t
      else []) @
     (if typeFilter = None \<or> typeFilter = Some [] \<or> typeFilter = Some ''ALGORITHM''
      then scanDir fs (pathJoin (pathJoin MEMORY_DIR ''LEARNING'') ''ALGORITHM'') ''**/*.md'' ALGORITHM_t
      else []) @
     (if typeFilter = None \<or> typeFilter = Some [] \<or> typeFilter = Some ''SYSTEM''
      then scanDir fs (pathJoin (pathJoin MEMORY_DIR ''LEARNING'') ''SYSTEM'') ''**/*.md'' SYSTEM_t
      else [])"

subsection \<open>search\<close>

record SearchResult =
  filePath :: string
  relativePath :: string
  type :: fileType
  timestamp :: "jsDate option"
  score :: nat
  matches :: "MatchContext list"

text \<open>
  \<^verbatim>\<open>if (sinceDate) { const fileDate = extractDate(filePath);
  if (fileDate && fileDate < sinceDate) continue; }\<close>
\<close>

definition skippedBySince :: "host \<Rightarrow> jsDate option \<Rightarrow> string \<Rightarrow> bool" where
  "skippedBySince h sinceDate fp =
     (case sinceDate of
        None \<Rightarrow> False
      | Some since \<Rightarrow>
          (case extractDate h fp of None \<Rightarrow> False | Some fileDate \<Rightarrow> dateLess fileDate since))"

text \<open>
  The loop over the files.  The pattern is compiled once, so its \<^verbatim>\<open>lastIndex\<close> goes from
  one file to the next; computing a score runs \<^verbatim>\<open>matchLine.match(regexPattern)\<close>, which
  leaves it at \<open>0\<close>.
\<close>

fun searchLoop ::
  "host \<Rightarrow> fileSystem \<Rightarrow> string \<Rightarrow> string \<Rightarrow> regExp \<Rightarrow> jsDate option \<Rightarrow>
   (string \<times> fileType) list \<Rightarrow> nat \<Rightarrow> SearchResult list \<times> consoleLine list" where
  "searchLoop h fs MEMORY_DIR query rx sinceDate [] lastIndex = ([], [])"
| "searchLoop h fs MEMORY_DIR query rx sinceDate ((fp, t) # files) lastIndex =
     (if skippedBySince h sinceDate fp
      then searchLoop h fs MEMORY_DIR query rx sinceDate files lastIndex
      else (case searchFile fs fp query rx lastIndex of
              ((ms, lastIndex'), out) \<Rightarrow>
                if 0 < length ms
                then (case searchLoop h fs MEMORY_DIR query rx sinceDate files 0 of
                        (results, out') \<Rightarrow>
                          (\<lparr>filePath = fp,
                            relativePath = replaceFirst fp (MEMORY_DIR @ ''/'') [],
                            type = t,
                            timestamp = extractDate h fp,
                            score = foldl (\<lambda>sum m. sum + matchCount rx (matchLine m)) 0 ms,
                            matches = ms\<rparr> # results,
                           out @ out'))
                else (case searchLoop h fs MEMORY_DIR query rx sinceDate files lastIndex' of
                        (results, out') \<Rightarrow> (results, out @ out'))))"

text \<open>
  \<^verbatim>\<open>results.sort((a, b) => b.score - a.score)\<close>: a stable sort, larger scores first.
\<close>

definition search ::
  "host \<Rightarrow> fileSystem \<Rightarrow> string \<Rightarrow> regExp \<Rightarrow> string \<Rightarrow> string option \<Rightarrow> jsDate option \<Rightarrow>
   SearchResult list \<times> consoleLine list" where
  "search h fs MEMORY_DIR rx query typeFilter sinceDate =
     (case searchLoop h fs MEMORY_DIR query rx sinceDate (getFilesToSearch fs MEMORY_DIR typeFilter) 0 of
        (results, out) \<Rightarrow> (sort_key (\<lambda>r. - int (score r)) results, out))"

section \<open>WeeklySynthesis.ts: loadLearnings\<close>

subsection \<open>The fields read out of a file\<close>















subsection \<open>The loops\<close>









section \<open>MemoryDatabase.ts\<close>

datatype memoryType = learning | session | synthesis | work

record Memory =
  m_id :: string
  m_timestamp :: string
  m_type :: memoryType
  m_topic :: string
  m_content :: string
  m_rating :: "int option"
  m_tags :: string
  m_file_path :: string
  m_importance :: int
  m_stability :: int

text \<open>
  A row of the table \<^verbatim>\<open>memories\<close>: the columns of a memory, the \<^verbatim>\<open>rowid\<close> and
  \<^verbatim>\<open>created_at\<close>.  The table is the list of its rows; \<^verbatim>\<open>id\<close> is its primary key.
\<close>

record Row = Memory +
  rowid :: nat
  created_at :: string

definition primaryKey :: "Row list \<Rightarrow> bool" where
  "primaryKey rows = distinct (map m_id rows)"

text \<open>A new row gets a \<^verbatim>\<open>rowid\<close> one above the largest in use.\<close>

definition nextRowid :: "Row list \<Rightarrow> nat" where
  "nextRowid rows = Suc (foldr max (map rowid rows) 0)"

subsection \<open>The full-text index and its triggers\<close>

text \<open>
  \<^verbatim>\<open>memories_fts\<close> is an FTS5 table over the columns \<^verbatim>\<open>id\<close>, \<^verbatim>\<open>content\<close>, \<^verbatim>\<open>topic\<close> and
  \<^verbatim>\<open>tags\<close> with external content (\<^verbatim>\<open>content='memories'\<close>): it keeps no text of its own.
  Beside the index it keeps the number of rows indexed and, for each of its columns, the
  number of tokens indexed.  The tokenizer is the default one: a token is a maximal run of
  letters and digits, every other character separates.
\<close>

definition isTokenChar :: "char \<Rightarrow> bool" where
  "isTokenChar c =
     (let n = (of_char c :: nat)
      in (48 \<le> n \<and> n \<le> 57) \<or> (65 \<le> n \<and> n \<le> 90) \<or> (97 \<le> n \<and> n \<le> 122) \<or>
         n \<in> {170, 178, 179, 181, 185, 186, 188, 189, 190} \<or>
         (192 \<le> n \<and> n \<noteq> 215 \<and> n \<noteq> 247))"

fun countTokens :: "bool \<Rightarrow> string \<Rightarrow> nat" where
  "countTokens inToken [] = 0"
| "countTokens inToken (c # cs) =
     (if isTokenChar c then (if inToken then 0 else 1) + countTokens True cs
      else countTokens False cs)"

definition tokenCount :: "string \<Rightarrow> nat" where
  "tokenCount s = countTokens False s"

text \<open>The token counts of a row, one for each column of \<^verbatim>\<open>memories_fts\<close>.\<close>

definition columnSizes :: "Row \<Rightarrow> nat list" where
  "columnSizes r =
     [tokenCount (m_id r), tokenCount (m_content r), tokenCount (m_topic r), tokenCount (m_tags r)]"

text \<open>
  The database: the table \<^verbatim>\<open>memories\<close> and the totals of \<^verbatim>\<open>memories_fts\<close>.  What the index
  holds for a query is left to the engine (see \<open>searchMemories\<close> below).
\<close>

record Database =
  memories :: "Row list"
  nTotalRow :: nat
  aTotalSize :: "nat list"

definition emptyDatabase :: Database where
  "emptyDatabase = \<lparr>memories = [], nTotalRow = 0, aTotalSize = [0, 0, 0, 0]\<rparr>"

datatype sqliteError = SQLITE_ERROR | SQLITE_CORRUPT_VTAB

text \<open>
  The trigger \<^verbatim>\<open>memories_fts_insert\<close>, after an insertion into \<^verbatim>\<open>memories\<close>:
  \<^verbatim>\<open>INSERT INTO memories_fts(rowid, id, content, topic, tags) VALUES (new.rowid, ...)\<close>
  indexes the new row and adds its token counts to the totals.
\<close>

definition memories_fts_insert :: "Database \<Rightarrow> Row \<Rightarrow> Database" where
  "memories_fts_insert db new =
     db\<lparr>nTotalRow := Suc (nTotalRow db),
        aTotalSize := map2 (+) (aTotalSize db) (columnSizes new)\<rparr>"

text \<open>
  The trigger \<^verbatim>\<open>memories_fts_update\<close>, after an update of \<^verbatim>\<open>memories\<close>:
  \<^verbatim>\<open>UPDATE memories_fts SET id = new.id, ... WHERE rowid = new.rowid\<close>.  FTS5 carries out an
  update as the removal of the row's old entry followed by the insertion of the new one.
  For the removal it reads the row's text back from the content table, and the trigger runs
  after the update, so the text it reads is already the new one.  The removal takes the
  token counts of that text off the totals, and it fails with \<^verbatim>\<open>SQLITE_CORRUPT_VTAB\<close> when
  a total would fall below zero or no row is counted.
\<close>

definition ftsRemove :: "Database \<Rightarrow> Row \<Rightarrow> sqliteError + Database" where
  "ftsRemove db stored =
     (if list_ex (\<lambda>(total, size). total < size) (zip (aTotalSize db) (columnSizes stored)) \<or>
         nTotalRow db < 1
      then Inl SQLITE_CORRUPT_VTAB
      else Inr (db\<lparr>nTotalRow := nTotalRow db - 1,
                   aTotalSize := map2 (-) (aTotalSize db) (columnSizes stored)\<rparr>))"

definition memories_fts_update :: "Database \<Rightarrow> Row \<Rightarrow> sqliteError + Database" where
  "memories_fts_update db new =
     (case find (\<lambda>r. rowid r = rowid new) (memories db) of
        None \<Rightarrow> Inr db
      | Some stored \<Rightarrow>
          (case ftsRemove db stored of
             Inl e \<Rightarrow> Inl e
           | Inr db' \<Rightarrow> Inr (memories_fts_insert db' new)))"

subsection \<open>insertMemory\<close>

text \<open>
  \<^verbatim>\<open>INSERT INTO memories (...) VALUES (...) ON CONFLICT(id) DO UPDATE SET ...\<close>; \<open>now\<close> is
  \<^verbatim>\<open>CURRENT_TIMESTAMP\<close>, the default of \<^verbatim>\<open>created_at\<close>.  Each branch runs its trigger.
  An error of the trigger is the error of the statement: \<^verbatim>\<open>stmt.run\<close> throws, and the
  database is left as it was before the statement.
\<close>

definition insertMemory :: "Database \<Rightarrow> string \<Rightarrow> Memory \<Rightarrow> sqliteError + Database" where
  "insertMemory db now memory =
     (case find (\<lambda>r. m_id r = m_id memory) (memories db) of
        Some old \<Rightarrow>
          (let new = old\<lparr>m_timestamp := m_timestamp memory,
                         m_type := m_type memory,
                         m_topic := m_topic memory,
                         m_content := m_content memory,
                         m_rating := m_rating memory,
                         m_tags := m_tags memory,
                         m_file_path := m_file_path memory,
                         m_importance := m_importance memory,
                         m_stability := m_stability memory\<rparr>
           in memories_fts_update
                (db\<lparr>memories := map (\<lambda>r. if m_id r = m_id memory then new else r) (memories db)\<rparr>)
                new)
      | None \<Rightarrow>
          (let new = \<lparr>m_id = m_id memory,
                      m_timestamp = m_timestamp memory,
                      m_type = m_type memory,
                      m_topic = m_topic memory,
                      m_content = m_content memory,
                      m_rating = m_rating memory,
                      m_tags = m_tags memory,
                      m_file_path = m_file_path memory,
                      m_importance = m_importance memory,
                      m_stability = m_stability memory,
                      rowid = nextRowid (memories db),
                      created_at = now\<rparr>
           in Inr (memories_fts_insert (db\<lparr>memories := memories db @ [new]\<rparr>) new)))"

subsection \<open>searchMemories\<close>

text \<open>
  The full-text index is SQLite's: \<open>engine db query\<close> is \<open>None\<close> when the query is not an
  expression the index accepts (the statement throws), and otherwise gives, for the
  \<^verbatim>\<open>rowid\<close> of every row that matches, its \<^verbatim>\<open>rank\<close>.
\<close>

type_synonym ftsEngine = "Database \<Rightarrow> string \<Rightarrow> (nat \<Rightarrow> rat option) option"

text \<open>
  \<^verbatim>\<open>ORDER BY rank, m.importance DESC, m.timestamp DESC\<close> on rows paired with their rank;
  the time stamps are text and compare as text.
\<close>

definition orderedBefore :: "Row \<times> rat \<Rightarrow> Row \<times> rat \<Rightarrow> bool" where
  "orderedBefore a b =
     (snd a < snd b \<or>
      (snd a = snd b \<and>
       (m_importance (fst b) < m_importance (fst a) \<or>
        (m_importance (fst a) = m_importance (fst b) \<and> m_timestamp (fst b) \<le> m_timestamp (fst a)))))"

fun insertOrdered :: "Row \<times> rat \<Rightarrow> (Row \<times> rat) list \<Rightarrow> (Row \<times> rat) list" where
  "insertOrdered x [] = [x]"
| "insertOrdered x (y # ys) = (if orderedBefore x y then x # y # ys else y # insertOrdered x ys)"

definition orderBy :: "(Row \<times> rat) list \<Rightarrow> (Row \<times> rat) list" where
  "orderBy rows = foldr insertOrdered rows []"

text \<open>
  The join of \<^verbatim>\<open>memories\<close> with the matches of the index on the \<^verbatim>\<open>rowid\<close>: the rows that
  match, each with its rank.
\<close>

definition matchingRows :: "(nat \<Rightarrow> rat option) \<Rightarrow> Row list \<Rightarrow> (Row \<times> rat) list" where
  "matchingRows rank rows = List.map_filter (\<lambda>r. map_option (\<lambda>k. (r, k)) (rank (rowid r))) rows"

text \<open>
  \<^verbatim>\<open>LIMIT ?\<close> with the number of results wanted (\<^verbatim>\<open>limit: number = 20\<close>), a count.
\<close>

definition searchMemories ::
  "ftsEngine \<Rightarrow> Database \<Rightarrow> string \<Rightarrow> nat \<Rightarrow> sqliteError + (Row \<times> rat) list" where
  "searchMemories engine db query limit =
     (case engine db query of
        None \<Rightarrow> Inl SQLITE_ERROR
      | Some rank \<Rightarrow> Inr (take limit (orderBy (matchingRows rank (memories db)))))"

chapter \<open>Properties\<close>

section \<open>Insight selection\<close>

text \<open>Example groups: three learnings, all with the same rating or with none.\<close>

definition exampleLearning :: "string \<Rightarrow> string \<Rightarrow> nat option \<Rightarrow> Learning" where
  "exampleLearning p c r =
     \<lparr>fileName = p, path = ''ALGORITHM/2026-02/'' @ p, date = take 10 p, title = p, content = c,
      category = ALGORITHM, rating = r\<rparr>"

definition unratedGroup :: "Learning list" where
  "unratedGroup =
     [exampleLearning ''2026-02-01_a.md'' ''one'' None,
      exampleLearning ''2026-02-02_b.md'' ''two'' None,
      exampleLearning ''2026-02-03_c.md'' ''three'' None]"

definition lowRatedGroup :: "Learning list" where
  "lowRatedGroup =
     [exampleLearning ''2026-02-01_a.md'' ''one'' (Some 3),
      exampleLearning ''2026-02-02_b.md'' ''two'' (Some 3),
      exampleLearning ''2026-02-03_c.md'' ''three'' (Some 3)]"

lemma avgRating_unrated:
  assumes "\<forall>l\<in>set ls. rating l = None"
  shows "avgRating ls = None"
proof -
  from assms have "filter ratingTruthy ls = []"
    by (auto simp: ratingTruthy_def filter_empty_conv)
  then show ?thesis by (simp add: avgRating_def)
qed

text \<open>
  Claim C8.  In a group in which no learning has a rating the average rating is undefined
  (\<^verbatim>\<open>NaN\<close>), the low-rating rule does not fire, and the insight is chosen by the rules on the
  theme: the bug rule, then the technical-debt rule, then the generic one.
\<close>

theorem unrated_group_skips_low_rating_rule:
  assumes "\<forall>l\<in>set ls. rating l = None"
  shows "avgRating ls = None \<and>
         generateInsight th ls =
           (if includesJS th ''bug'' \<or> includesJS th ''fix'' \<or> includesJS th ''error'' then bugInsight
            else if includesJS th ''refactor'' \<or> includesJS th ''optimize'' then debtInsight
            else recurringInsight (length ls))"
  using avgRating_unrated [OF assms] by (simp add: generateInsight_def themeInsight_def)

theorem unrated_group_skips_low_rating_rule_witness:
  "avgRating unratedGroup = None \<and>
   generateInsight ''api'' unratedGroup =
     ''Recurring theme requiring attention - 3 instances this week'' \<and>
   generateInsight ''#refactor'' unratedGroup = debtInsight \<and>
   generateInsight ''#bugfix'' unratedGroup = bugInsight"
proof -
  have h: "\<forall>l\<in>set unratedGroup. rating l = None"
    by (simp add: unratedGroup_def exampleLearning_def)
  have e1: "(if includesJS ''api'' ''bug'' \<or> includesJS ''api'' ''fix'' \<or> includesJS ''api'' ''error''
             then bugInsight
             else if includesJS ''api'' ''refactor'' \<or> includesJS ''api'' ''optimize'' then debtInsight
             else recurringInsight (length unratedGroup)) =
            ''Recurring theme requiring attention - 3 instances this week''"
    by code_simp
  have e2: "(if includesJS ''#refactor'' ''bug'' \<or> includesJS ''#refactor'' ''fix'' \<or>
                includesJS ''#refactor'' ''error''
             then bugInsight
             else if includesJS ''#refactor'' ''refactor'' \<or> includesJS ''#refactor'' ''optimize''
             then debtInsight
             else recurringInsight (length unratedGroup)) = debtInsight"
    by code_simp
  have e3: "(if includesJS ''#bugfix'' ''bug'' \<or> includesJS ''#bugfix'' ''fix'' \<or>
                includesJS ''#bugfix'' ''error''
             then bugInsight
             else if includesJS ''#bugfix'' ''refactor'' \<or> includesJS ''#bugfix'' ''optimize''
             then debtInsight
             else recurringInsight (length unratedGroup)) = bugInsight"
    by code_simp
  from unrated_group_skips_low_rating_rule [OF h, of "''api''"]
       unrated_group_skips_low_rating_rule [OF h, of "''#refactor''"]
       unrated_group_skips_low_rating_rule [OF h, of "''#bugfix''"]
  show ?thesis by (simp only: e1 e2 e3 simp_thms)
qed

lemma bitLength_bound: "0 < n \<Longrightarrow> 2 ^ bitLength n \<le> 2 * n"
proof (induction n rule: bitLength.induct)
  case (1 n)
  show ?case
  proof (cases "n div 2 = 0")
    case True
    with "1.prems" have "n = 1" by (simp add: div_eq_0_iff) 
    then show ?thesis by (simp add: bitLength.simps [of "Suc 0"] bitLength.simps [of 0])
  next
    case False
    with "1.IH" "1.prems" have "2 ^ bitLength (n div 2) \<le> 2 * (n div 2)" by simp
    moreover have "bitLength n = Suc (bitLength (n div 2))"
      using "1.prems" by (subst bitLength.simps) simp
    ultimately show ?thesis by simp
  qed
qed

lemma roundHalfEven_ge_floor: "\<lfloor>x\<rfloor> \<le> roundHalfEven x"
  by (simp add: roundHalfEven_def Let_def)

lemma roundHalfEven_le: "of_int (roundHalfEven x) \<le> x + 1 / 2"
  unfolding roundHalfEven_def Let_def
  by (auto simp: not_less) linarith+

lemma binary64_ge_1:
  assumes "1 \<le> q"
  shows "1 \<le> binary64 q"
proof -
  define n where "n = nat \<lfloor>q\<rfloor>"
  define b where "b = bitLength n"
  from assms have npos: "0 < n" unfolding n_def by (simp add: le_floor_iff)
  have nq: "of_nat n \<le> q" unfolding n_def using assms by (simp add: le_floor_iff)
  show ?thesis
  proof (cases "b \<le> 53")
    case True
    have "(2::rat) ^ (53 - b) \<le> q * 2 ^ (53 - b)" using assms by simp
    then have "(2::int) ^ (53 - b) \<le> \<lfloor>q * 2 ^ (53 - b)\<rfloor>"
      by (simp add: le_floor_iff)
    then have "(2::int) ^ (53 - b) \<le> roundHalfEven (q * 2 ^ (53 - b))"
      using roundHalfEven_ge_floor [of "q * 2 ^ (53 - b)"] by linarith
    then have "(2::rat) ^ (53 - b) \<le> of_int (roundHalfEven (q * 2 ^ (53 - b)))"
      by (metis of_int_le_iff of_int_numeral of_int_power)
    then show ?thesis using True
      by (simp add: binary64_def Let_def b_def [symmetric] n_def [symmetric] pos_le_divide_eq)
  next
    case False
    then have b53: "53 < b" by simp
    from bitLength_bound [OF npos] have "2 ^ b \<le> 2 * n" by (simp add: b_def)
    then have "(2::rat) ^ b \<le> 2 * of_nat n"
      by (metis of_nat_le_iff of_nat_mult of_nat_numeral of_nat_power)
    with nq have "(2::rat) ^ b \<le> 2 * q" by linarith
    moreover have "(2::rat) ^ b = 2 ^ (b - 53) * 2 ^ 53"
      using b53 power_add [of "2::rat" "b - 53" 53] by simp
    ultimately have "(2::rat) ^ (b - 53) * 2 ^ 53 \<le> 2 * q" by simp
    moreover define y where "y = (2::rat) ^ (b - 53)"
    ultimately have "y * 4503599627370496 \<le> q" by simp
    moreover have "0 \<le> y" by (simp add: y_def)
    ultimately have "y \<le> q" by linarith
    then have "(2::rat) ^ (b - 53) \<le> q" by (simp add: y_def)
    then have "(1::rat) \<le> q / 2 ^ (b - 53)"
      by (simp add: pos_le_divide_eq)
    then have "1 \<le> \<lfloor>q / 2 ^ (b - 53)\<rfloor>" by (simp add: le_floor_iff)
    then have "1 \<le> roundHalfEven (q / 2 ^ (b - 53))"
      using roundHalfEven_ge_floor [of "q / 2 ^ (b - 53)"] by linarith
    then have "(1::rat) \<le> of_int (roundHalfEven (q / 2 ^ (b - 53)))" by simp
    moreover have "(1::rat) \<le> 2 ^ (b - 53)" by simp
    ultimately have "(1::rat) * 1 \<le> of_int (roundHalfEven (q / 2 ^ (b - 53))) * 2 ^ (b - 53)"
      by (intro mult_mono) simp_all
    then show ?thesis using False
      by (simp add: binary64_def Let_def b_def [symmetric] n_def [symmetric])
  qed
qed

lemma foldl_rating_sum:
  "foldl (\<lambda>sum l. sum + (case rating l of None \<Rightarrow> 0 | Some r \<Rightarrow> r)) a ls =
   a + sum_list (map (\<lambda>l. case rating l of None \<Rightarrow> 0 | Some r \<Rightarrow> r) ls)"
  by (induction ls arbitrary: a) simp_all

lemma rated_sum_ge_length:
  "\<forall>l\<in>set ls. ratingTruthy l \<Longrightarrow>
   length ls \<le> sum_list (map (\<lambda>l. case rating l of None \<Rightarrow> 0 | Some r \<Rightarrow> r) ls)"
proof (induction ls)
  case Nil
  then show ?case by simp
next
  case (Cons l ls)
  then have "1 \<le> (case rating l of None \<Rightarrow> 0 | Some r \<Rightarrow> r)"
    by (auto simp: ratingTruthy_def split: option.splits)
  with Cons show ?case by simp
qed

lemma avgRating_ge_1:
  assumes "avgRating ls = Some a"
  shows "1 \<le> a"
proof -
  define rated where "rated = filter ratingTruthy ls"
  define total where "total = sum_list (map (\<lambda>l. case rating l of None \<Rightarrow> 0 | Some r \<Rightarrow> r) rated)"
  from assms have ne: "rated \<noteq> []" and a: "a = binary64 (of_nat total / of_nat (length rated))"
    by (auto simp: avgRating_def Let_def rated_def total_def foldl_rating_sum split: if_splits)
  have "length rated \<le> total"
    unfolding total_def by (rule rated_sum_ge_length) (simp add: rated_def)
  moreover from ne have "0 < length rated" by simp
  ultimately have "(1::rat) \<le> of_nat total / of_nat (length rated)"
    by (simp add: pos_le_divide_eq)
  then show ?thesis unfolding a by (rule binary64_ge_1)
qed

text \<open>
  Claim C4.  The rating rule is the first of the chain: whenever the average rating of a
  group is defined and below 5, the insight is the low-rating message, whatever the theme.
  The group of the example has average 3.0 and the theme \<^verbatim>\<open>bug-cluster\<close>.
\<close>

theorem low_rating_rule_wins:
  assumes "avgRating ls = Some a" and "a < 5"
  shows "generateInsight th ls = lowRatingInsight a"
  using assms avgRating_ge_1 [OF assms(1)] by (simp add: generateInsight_def)

theorem low_rating_rule_wins_witness:
  "avgRating lowRatedGroup = Some 3 \<and>
   generateInsight ''bug-cluster'' lowRatedGroup =
     ''Repeated low ratings (avg 3.0/10) suggest this area needs improvement'' \<and>
   generateInsight ''bug-cluster'' lowRatedGroup \<noteq> bugInsight"
proof -
  have a: "avgRating lowRatedGroup = Some 3" by code_simp
  have t: "lowRatingInsight 3 =
             ''Repeated low ratings (avg 3.0/10) suggest this area needs improvement''"
    by code_simp
  have d: "''Repeated low ratings (avg 3.0/10) suggest this area needs improvement'' \<noteq> bugInsight"
    by (simp add: bugInsight_def)
  from low_rating_rule_wins [OF a, of "''bug-cluster''"] have
    "generateInsight ''bug-cluster'' lowRatedGroup = lowRatingInsight 3" by simp
  with a t d show ?thesis by simp
qed

section \<open>The index store\<close>

text \<open>
  Example learnings, each as \<open>syncAllMemories\<close> builds it from a file under
  \<^verbatim>\<open>MEMORY/LEARNING/ALGORITHM\<close>: the content is the text of the file, the topic its heading,
  the tags its hashtags, the importance follows from the rating.  \<open>memA2\<close> is \<open>memA\<close> after
  its file has been edited: a longer text and a second tag.
\<close>

definition memA :: Memory where
  "memA = \<lparr>m_id = ''algo_2026-01_2026-01-10_api-notes'', m_timestamp = ''2026-01-10 12:00:00'',
     m_type = learning, m_topic = ''API notes'',
     m_content = ''# API notes'' @ [CHR 0x0A] @ ''api design #api'' @ [CHR 0x0A] @ ''Rating: 9'',
     m_rating = Some 9, m_tags = ''#api'',
     m_file_path = ''MEMORY/LEARNING/ALGORITHM/2026-01/2026-01-10_api-notes.md'',
     m_importance = 5, m_stability = 4\<rparr>"

definition memA2 :: Memory where
  "memA2 = \<lparr>m_id = ''algo_2026-01_2026-01-10_api-notes'', m_timestamp = ''2026-01-10 12:00:00'',
     m_type = learning, m_topic = ''API notes, revised'',
     m_content = ''# API notes, revised'' @ [CHR 0x0A] @ ''api design, second take #api #design'' @
                 [CHR 0x0A] @ ''Rating: 7'',
     m_rating = Some 7, m_tags = ''#api #design'',
     m_file_path = ''MEMORY/LEARNING/ALGORITHM/2026-01/2026-01-10_api-notes.md'',
     m_importance = 4, m_stability = 4\<rparr>"

definition memB :: Memory where
  "memB = \<lparr>m_id = ''algo_2026-02_2026-02-01_api-work'', m_timestamp = ''2026-02-01 12:00:00'',
     m_type = learning, m_topic = ''API work'',
     m_content = ''# API work'' @ [CHR 0x0A] @ ''api work'' @ [CHR 0x0A] @ ''Rating: 4'',
     m_rating = Some 4, m_tags = '''',
     m_file_path = ''MEMORY/LEARNING/ALGORITHM/2026-02/2026-02-01_api-work.md'',
     m_importance = 3, m_stability = 4\<rparr>"

definition memC :: Memory where
  "memC = \<lparr>m_id = ''algo_2025-12_2025-12-20_api-errors'', m_timestamp = ''2025-12-20 12:00:00'',
     m_type = learning, m_topic = ''API errors'',
     m_content = ''# API errors'' @ [CHR 0x0A] @ ''api errors, api timeouts #api'' @ [CHR 0x0A] @
                 ''Rating: 3'',
     m_rating = Some 3, m_tags = ''#api'',
     m_file_path = ''MEMORY/LEARNING/ALGORITHM/2025-12/2025-12-20_api-errors.md'',
     m_importance = 2, m_stability = 4\<rparr>"

definition memD :: Memory where
  "memD = \<lparr>m_id = ''algo_2026-02_2026-02-05_api-limits'', m_timestamp = ''2026-02-05 12:00:00'',
     m_type = learning, m_topic = ''API limits'',
     m_content = ''# API limits'' @ [CHR 0x0A] @ ''api limits'' @ [CHR 0x0A] @ ''Rating: 5'',
     m_rating = Some 5, m_tags = '''',
     m_file_path = ''MEMORY/LEARNING/ALGORITHM/2026-02/2026-02-05_api-limits.md'',
     m_importance = 3, m_stability = 4\<rparr>"

definition memE :: Memory where
  "memE = \<lparr>m_id = ''algo_2026-02_2026-02-06_cache'', m_timestamp = ''2026-02-06 12:00:00'',
     m_type = learning, m_topic = ''Cache'',
     m_content = ''# Cache'' @ [CHR 0x0A] @ ''slow cache'',
     m_rating = None, m_tags = '''',
     m_file_path = ''MEMORY/LEARNING/ALGORITHM/2026-02/2026-02-06_cache.md'',
     m_importance = 3, m_stability = 4\<rparr>"

text \<open>The row of a memory, with its \<^verbatim>\<open>rowid\<close> and the time of its insertion.\<close>

definition rowOf :: "Memory \<Rightarrow> nat \<Rightarrow> string \<Rightarrow> Row" where
  "rowOf m i now =
     \<lparr>m_id = m_id m, m_timestamp = m_timestamp m, m_type = m_type m, m_topic = m_topic m,
      m_content = m_content m, m_rating = m_rating m, m_tags = m_tags m,
      m_file_path = m_file_path m, m_importance = m_importance m, m_stability = m_stability m,
      rowid = i, created_at = now\<rparr>"

definition rowA :: Row where
  "rowA = rowOf memA 2 ''2026-02-02 08:00:01''"

definition rowB :: Row where
  "rowB = rowOf memB 1 ''2026-02-02 08:00:00''"

definition rowC :: Row where
  "rowC = rowOf memC 4 ''2026-02-07 08:00:01''"

definition rowD :: Row where
  "rowD = rowOf memD 3 ''2026-02-07 08:00:00''"

definition rowE :: Row where
  "rowE = rowOf memE 5 ''2026-02-07 08:00:02''"

text \<open>
  \<open>insertMemory\<close> called for one memory after the other, as \<open>syncAllMemories\<close> does; the
  first error ends the run.
\<close>

fun insertAll :: "Database \<Rightarrow> (string \<times> Memory) list \<Rightarrow> sqliteError + Database" where
  "insertAll db [] = Inr db"
| "insertAll db ((now, m) # ms) =
     (case insertMemory db now m of Inl e \<Rightarrow> Inl e | Inr db' \<Rightarrow> insertAll db' ms)"

text \<open>
  The stores of the examples: \<open>storeA\<close> after the first synchronisation of \<open>memA\<close> alone,
  \<open>exampleDb\<close> after that of \<open>memB\<close> and \<open>memA\<close>, \<open>searchDb\<close> after three more files.
\<close>

definition storeA :: Database where
  "storeA = \<lparr>memories = [rowOf memA 1 ''2026-02-02 08:00:01''], nTotalRow = 1,
              aTotalSize = [8, 7, 2, 1]\<rparr>"

definition exampleDb :: Database where
  "exampleDb = \<lparr>memories = [rowB, rowA], nTotalRow = 2, aTotalSize = [16, 13, 4, 1]\<rparr>"

definition searchDb :: Database where
  "searchDb = \<lparr>memories = [rowB, rowA, rowD, rowC, rowE], nTotalRow = 5,
                aTotalSize = [39, 31, 9, 2]\<rparr>"

text \<open>
  The example index: for the query \<^verbatim>\<open>api\<close> it ranks the row of \<open>memC\<close>, where the term is
  most frequent, before the rows of \<open>memA\<close>, \<open>memB\<close> and \<open>memD\<close>, which get the same rank;
  the row of \<open>memE\<close> does not match.
\<close>

definition exampleEngine :: ftsEngine where
  "exampleEngine db query =
     (if query = ''api''
      then Some (\<lambda>i. if i = 4 then Some (- 2) else if i = 1 \<or> i = 2 \<or> i = 3 then Some (- 1) else None)
      else None)"

text \<open>The row \<open>r\<close> with the nine columns of the \<^verbatim>\<open>DO UPDATE SET\<close> list taken from \<open>m\<close>.\<close>

definition replaced :: "Row \<Rightarrow> Memory \<Rightarrow> Row" where
  "replaced r m =
     r\<lparr>m_timestamp := m_timestamp m, m_type := m_type m, m_topic := m_topic m,
       m_content := m_content m, m_rating := m_rating m, m_tags := m_tags m,
       m_file_path := m_file_path m, m_importance := m_importance m,
       m_stability := m_stability m\<rparr>"

text \<open>The index has room for a row: no column of the row has more tokens than the index counts.\<close>

definition fitsTotals :: "Database \<Rightarrow> Row \<Rightarrow> bool" where
  "fitsTotals db r =
     (\<not> list_ex (\<lambda>(total, size). total < size) (zip (aTotalSize db) (columnSizes r)) \<and>
      1 \<le> nTotalRow db)"

lemma storeA_inserted:
  "insertAll emptyDatabase [(''2026-02-02 08:00:01'', memA)] = Inr storeA"
  by code_simp

lemma exampleDb_inserted:
  "insertAll emptyDatabase [(''2026-02-02 08:00:00'', memB), (''2026-02-02 08:00:01'', memA)] =
   Inr exampleDb"
  by code_simp

lemma searchDb_inserted:
  "insertAll exampleDb [(''2026-02-07 08:00:00'', memD), (''2026-02-07 08:00:01'', memC),
     (''2026-02-07 08:00:02'', memE)] = Inr searchDb"
  by code_simp

lemma set_map_filter: "set (List.map_filter f xs) = {y. \<exists>x\<in>set xs. f x = Some y}"
  by (induction xs) (auto simp: map_filter_simps split: option.splits)

subsection \<open>What an upsert does\<close>

lemma filter_id_absent: "k \<notin> set (map m_id rows) \<Longrightarrow> filter (\<lambda>x. m_id x = k) rows = []"
  by (induction rows) auto

lemma find_id_absent: "k \<notin> set (map m_id rows) \<Longrightarrow> find (\<lambda>x. m_id x = k) rows = None"
  by (induction rows) auto

lemma find_id:
  assumes "distinct (map m_id rows)" and "r \<in> set rows"
  shows "find (\<lambda>x. m_id x = m_id r) rows = Some r"
  using assms
proof (induction rows)
  case Nil
  then show ?case by simp
next
  case (Cons x rows)
  show ?case
  proof (cases "x = r")
    case True
    then show ?thesis by simp
  next
    case False
    with Cons.prems have "r \<in> set rows" "m_id x \<noteq> m_id r" by force+
    with Cons show ?thesis by simp
  qed
qed

lemma filter_id_existing:
  assumes "distinct (map m_id rows)" and "r \<in> set rows"
  shows "filter (\<lambda>x. m_id x = m_id r) rows = [r]"
  using assms
proof (induction rows)
  case Nil
  then show ?case by simp
next
  case (Cons x rows)
  show ?case
  proof (cases "x = r")
    case True
    with Cons.prems have "m_id r \<notin> set (map m_id rows)" by simp
    then have "filter (\<lambda>x. m_id x = m_id r) rows = []" by (rule filter_id_absent)
    with True show ?thesis by simp
  next
    case False
    with Cons.prems have "r \<in> set rows" "m_id x \<noteq> m_id r" by force+
    with Cons show ?thesis by simp
  qed
qed

text \<open>
  After the update of \<^verbatim>\<open>memories\<close>, the row that the index reads back under the \<^verbatim>\<open>rowid\<close>
  is the updated one.
\<close>

lemma find_rowid_updated:
  assumes "distinct (map rowid rows)" and "distinct (map m_id rows)" and "r \<in> set rows"
    and "rowid new = rowid r"
  shows "find (\<lambda>x. rowid x = rowid new) (map (\<lambda>x. if m_id x = m_id r then new else x) rows) =
         Some new"
  using assms
proof (induction rows)
  case Nil
  then show ?case by simp
next
  case (Cons x rows)
  show ?case
  proof (cases "x = r")
    case True
    then show ?thesis by simp
  next
    case False
    with Cons.prems have "r \<in> set rows" "m_id x \<noteq> m_id r" "rowid x \<noteq> rowid r" by force+
    with Cons show ?thesis by simp
  qed
qed

lemma filter_id_updated:
  assumes "distinct (map m_id rows)" and "r \<in> set rows" and "m_id new = m_id r"
  shows "filter (\<lambda>x. m_id x = m_id r) (map (\<lambda>x. if m_id x = m_id r then new else x) rows) = [new]"
proof -
  have "filter (\<lambda>x. m_id x = m_id r) (map (\<lambda>x. if m_id x = m_id r then new else x) rows) =
        map (\<lambda>x. new) (filter (\<lambda>x. m_id x = m_id r) rows)"
    using assms(3) by (induction rows) simp_all
  also have "filter (\<lambda>x. m_id x = m_id r) rows = [r]"
    using assms(1,2) by (rule filter_id_existing)
  finally show ?thesis by simp
qed

text \<open>
  An insertion under a new identity always succeeds: one more row, created at the time of
  the insertion, and its tokens are added to the totals.
\<close>

lemma insertMemory_fresh:
  assumes "m_id m \<notin> set (map m_id (memories db))"
  shows "insertMemory db now m =
         Inr (db\<lparr>memories := memories db @ [rowOf m (nextRowid (memories db)) now],
                 nTotalRow := Suc (nTotalRow db),
                 aTotalSize := map2 (+) (aTotalSize db)
                                 (columnSizes (rowOf m (nextRowid (memories db)) now))\<rparr>)"
  using find_id_absent [OF assms]
  by (simp add: insertMemory_def memories_fts_insert_def rowOf_def Let_def)

text \<open>
  An insertion under the identity of a stored row \<open>r\<close> is rejected, and nothing is written,
  unless the index has room for the new text; then the row is replaced, and the totals still
  count the tokens of the text first inserted.
\<close>

lemma insertMemory_conflict:
  assumes pk: "primaryKey (memories db)" and dr: "distinct (map rowid (memories db))"
    and r: "r \<in> set (memories db)" and i: "m_id r = m_id m"
  shows "insertMemory db now m =
         (if fitsTotals db (replaced r m)
          then Inr (db\<lparr>memories := map (\<lambda>x. if m_id x = m_id m then replaced r m else x) (memories db),
                       nTotalRow := Suc (nTotalRow db - 1),
                       aTotalSize := map2 (+) (map2 (-) (aTotalSize db) (columnSizes (replaced r m)))
                                       (columnSizes (replaced r m))\<rparr>)
          else Inl SQLITE_CORRUPT_VTAB)"
proof -
  from pk r i have f: "find (\<lambda>x. m_id x = m_id m) (memories db) = Some r"
    using find_id [of "memories db" r] by (simp add: primaryKey_def)
  have "rowid (replaced r m) = rowid r" by (simp add: replaced_def)
  from find_rowid_updated [OF dr _ r this] pk i
  have g: "find (\<lambda>x. rowid x = rowid (replaced r m))
             (map (\<lambda>x. if m_id x = m_id m then replaced r m else x) (memories db)) =
           Some (replaced r m)"
    by (simp add: primaryKey_def)
  show ?thesis
    unfolding insertMemory_def f option.case Let_def replaced_def [symmetric]
    by (simp add: memories_fts_update_def g ftsRemove_def fitsTotals_def memories_fts_insert_def)
qed

lemma accepted_upsert_replaces:
  assumes pk: "primaryKey (memories db)" and dr: "distinct (map rowid (memories db))"
    and r: "r \<in> set (memories db)" and i: "m_id r = m_id m"
    and ok: "insertMemory db now m = Inr db'"
  shows "filter (\<lambda>x. m_id x = m_id m) (memories db') = [replaced r m]"
proof -
  from ok insertMemory_conflict [OF pk dr r i, of now]
  have "memories db' = map (\<lambda>x. if m_id x = m_id m then replaced r m else x) (memories db)"
    by (auto split: if_splits)
  moreover have "m_id (replaced r m) = m_id r" by (simp add: replaced_def)
  ultimately show ?thesis
    using filter_id_updated [of "memories db" r "replaced r m"] pk r i
    by (simp add: primaryKey_def)
qed

text \<open>
  The rejection does not need a second document: a file that is alone in the store and gets
  one more tag (or a longer text, heading or name) can never be synchronised again.
\<close>

lemma grown_tags_are_rejected:
  assumes "m_id m2 = m_id m1" and "tokenCount (m_tags m1) < tokenCount (m_tags m2)"
  shows "insertAll emptyDatabase [(t1, m1), (t2, m2)] = Inl SQLITE_CORRUPT_VTAB"
  using assms
  by (simp add: insertMemory_def memories_fts_update_def ftsRemove_def memories_fts_insert_def
      columnSizes_def emptyDatabase_def Let_def)

subsection \<open>The second insert of a document\<close>

text \<open>
  Claim C5.  The store \<open>exampleDb\<close> holds the documents \<open>memB\<close> and \<open>memA\<close>.  Inserting
  \<open>memA\<close> again is accepted and changes nothing.  Inserting \<open>memA2\<close>, the same document
  (same identity) after it got a second tag, is rejected with \<^verbatim>\<open>SQLITE_CORRUPT_VTAB\<close>: the
  index counts one token in the column \<^verbatim>\<open>tags\<close> and \<open>memA2\<close> has two.  The statement throws
  and the store keeps the values of the first insert: the second insert's values do not win.
\<close>

theorem second_insert_is_rejected:
  "m_id memA2 = m_id memA \<and>
   insertMemory exampleDb ''2026-02-03 09:00:00'' memA = Inr exampleDb \<and>
   aTotalSize exampleDb = [16, 13, 4, 1] \<and>
   columnSizes (replaced rowA memA2) = [8, 11, 3, 2] \<and>
   insertMemory exampleDb ''2026-02-04 09:00:00'' memA2 = Inl SQLITE_CORRUPT_VTAB \<and>
   filter (\<lambda>r. m_id r = m_id memA2) (memories exampleDb) = [rowA] \<and>
   m_tags rowA = ''#api'' \<and> m_tags memA2 = ''#api #design''"
proof -
  have "m_id memA2 = m_id memA" by code_simp
  moreover have "insertMemory exampleDb ''2026-02-03 09:00:00'' memA = Inr exampleDb" by code_simp
  moreover have "aTotalSize exampleDb = [16, 13, 4, 1]" by (simp add: exampleDb_def)
  moreover have "columnSizes (replaced rowA memA2) = [8, 11, 3, 2]" by code_simp
  moreover have "insertMemory exampleDb ''2026-02-04 09:00:00'' memA2 = Inl SQLITE_CORRUPT_VTAB"
    by code_simp
  moreover have "filter (\<lambda>r. m_id r = m_id memA2) (memories exampleDb) = [rowA]" by code_simp
  moreover have "m_tags rowA = ''#api''" "m_tags memA2 = ''#api #design''" by code_simp+
  ultimately show ?thesis by simp
qed

text \<open>
  Claim C10.  The store \<open>storeA\<close> holds the one row of \<open>memA\<close>, created at 08:00:01.  The
  upsert of \<open>memA2\<close> under the same identity is rejected with \<^verbatim>\<open>SQLITE_CORRUPT_VTAB\<close>: the
  new text has 11 tokens where the index counts 7 (and the heading 3 for 2, the tags 2 for
  1).  The statement throws and the store is as before, so \<^verbatim>\<open>created_at\<close> is unchanged, but
  so is every other column of the row: topic, content, rating, tags and importance are
  those of \<open>memA\<close>, not the new values.
\<close>

theorem rejected_upsert_replaces_no_column:
  "insertMemory emptyDatabase ''2026-02-02 08:00:01'' memA = Inr storeA \<and>
   memories storeA = [rowOf memA 1 ''2026-02-02 08:00:01''] \<and>
   m_id memA2 = m_id (rowOf memA 1 ''2026-02-02 08:00:01'') \<and>
   aTotalSize storeA = [8, 7, 2, 1] \<and>
   columnSizes (replaced (rowOf memA 1 ''2026-02-02 08:00:01'') memA2) = [8, 11, 3, 2] \<and>
   insertMemory storeA ''2026-02-04 09:00:00'' memA2 = Inl SQLITE_CORRUPT_VTAB \<and>
   m_topic (rowOf memA 1 ''2026-02-02 08:00:01'') = ''API notes'' \<and>
   m_topic memA2 = ''API notes, revised'' \<and>
   m_rating (rowOf memA 1 ''2026-02-02 08:00:01'') = Some 9 \<and> m_rating memA2 = Some 7 \<and>
   m_importance (rowOf memA 1 ''2026-02-02 08:00:01'') = 5 \<and> m_importance memA2 = 4"
proof -
  have "insertMemory emptyDatabase ''2026-02-02 08:00:01'' memA = Inr storeA" by code_simp
  moreover have "memories storeA = [rowOf memA 1 ''2026-02-02 08:00:01'']"
    "aTotalSize storeA = [8, 7, 2, 1]"
    by (simp_all add: storeA_def)
  moreover have "m_id memA2 = m_id (rowOf memA 1 ''2026-02-02 08:00:01'')" by code_simp
  moreover have "columnSizes (replaced (rowOf memA 1 ''2026-02-02 08:00:01'') memA2) = [8, 11, 3, 2]"
    by code_simp
  moreover have "insertMemory storeA ''2026-02-04 09:00:00'' memA2 = Inl SQLITE_CORRUPT_VTAB"
    by code_simp
  moreover have "m_topic (rowOf memA 1 ''2026-02-02 08:00:01'') = ''API notes''"
    "m_topic memA2 = ''API notes, revised''"
    "m_rating (rowOf memA 1 ''2026-02-02 08:00:01'') = Some 9" "m_rating memA2 = Some 7"
    "m_importance (rowOf memA 1 ''2026-02-02 08:00:01'') = 5" "m_importance memA2 = 4"
    by (simp_all add: rowOf_def memA_def memA2_def)
  ultimately show ?thesis by simp
qed

subsection \<open>The order of the search results\<close>

lemma orderedBefore_total: "\<not> orderedBefore a b \<Longrightarrow> orderedBefore b a"
  unfolding orderedBefore_def by (auto simp: not_less not_le)

lemma orderedBefore_trans: "orderedBefore a b \<Longrightarrow> orderedBefore b c \<Longrightarrow> orderedBefore a c"
  unfolding orderedBefore_def by (elim disjE conjE) (auto intro: order_trans less_trans)

lemma set_insertOrdered: "set (insertOrdered x ys) = insert x (set ys)"
  by (induction ys) auto

lemma mset_insertOrdered: "mset (insertOrdered x ys) = add_mset x (mset ys)"
  by (induction ys) auto

lemma sorted_insertOrdered:
  "sorted_wrt orderedBefore ys \<Longrightarrow> sorted_wrt orderedBefore (insertOrdered x ys)"
proof (induction ys)
  case Nil
  then show ?case by simp
next
  case (Cons y ys)
  show ?case
  proof (cases "orderedBefore x y")
    case True
    with Cons.prems have "\<forall>z\<in>set ys. orderedBefore x z"
      by (auto intro: orderedBefore_trans)
    with True Cons.prems show ?thesis by simp
  next
    case False
    then have "orderedBefore y x" by (rule orderedBefore_total)
    with False Cons show ?thesis by (auto simp: set_insertOrdered)
  qed
qed

lemma sorted_orderBy: "sorted_wrt orderedBefore (orderBy rows)"
  unfolding orderBy_def by (induction rows) (simp_all add: sorted_insertOrdered)

lemma mset_orderBy: "mset (orderBy rows) = mset rows"
  unfolding orderBy_def by (induction rows) (simp_all add: mset_insertOrdered)

lemma mset_matchingRows:
  "mset (matchingRows rank rows) =
   image_mset (\<lambda>r. (r, the (rank (rowid r)))) (filter_mset (\<lambda>r. \<exists>k. rank (rowid r) = Some k) (mset rows))"
  unfolding matchingRows_def
  by (induction rows) (auto simp: map_filter_simps split: option.splits)

lemma sorted_wrt_take: "sorted_wrt P xs \<Longrightarrow> sorted_wrt P (take n xs)"
  by (metis append_take_drop_id sorted_wrt_append)

text \<open>What the order of the \<^verbatim>\<open>ORDER BY\<close> clause means for two positions of a list.\<close>

lemma sorted_positions:
  assumes s: "sorted_wrt orderedBefore rows" and ij: "i < j" "j < length rows"
  shows "snd (rows ! i) \<le> snd (rows ! j)"
    and "snd (rows ! i) = snd (rows ! j) \<Longrightarrow>
         m_importance (fst (rows ! j)) \<le> m_importance (fst (rows ! i))"
    and "snd (rows ! i) = snd (rows ! j) \<Longrightarrow>
         m_importance (fst (rows ! i)) = m_importance (fst (rows ! j)) \<Longrightarrow>
         m_timestamp (fst (rows ! j)) \<le> m_timestamp (fst (rows ! i))"
proof -
  from s ij have o: "orderedBefore (rows ! i) (rows ! j)"
    by (simp add: sorted_wrt_iff_nth_less)
  from o show "snd (rows ! i) \<le> snd (rows ! j)"
    by (auto simp: orderedBefore_def)
  from o show "snd (rows ! i) = snd (rows ! j) \<Longrightarrow>
         m_importance (fst (rows ! j)) \<le> m_importance (fst (rows ! i))"
    by (auto simp: orderedBefore_def)
  from o show "snd (rows ! i) = snd (rows ! j) \<Longrightarrow>
         m_importance (fst (rows ! i)) = m_importance (fst (rows ! j)) \<Longrightarrow>
         m_timestamp (fst (rows ! j)) \<le> m_timestamp (fst (rows ! i))"
    by (auto simp: orderedBefore_def)
qed

lemma better_rank_first:
  assumes s: "sorted_wrt orderedBefore rows"
    and "i < length rows" "j < length rows"
    and "snd (rows ! i) < snd (rows ! j)"
  shows "i < j"
proof (rule ccontr)
  assume "\<not> i < j"
  then consider "i = j" | "j < i" by linarith
  then show False
  proof cases
    case 1
    with assms show ?thesis by simp
  next
    case 2
    from sorted_positions(1) [OF s 2 assms(2)] assms(4) show ?thesis by simp
  qed
qed

lemma equal_rank_importance_order:
  assumes s: "sorted_wrt orderedBefore rows"
    and "i < length rows" "j < length rows"
    and "snd (rows ! i) = snd (rows ! j)"
    and "m_importance (fst (rows ! j)) < m_importance (fst (rows ! i))"
  shows "i < j"
proof (rule ccontr)
  assume "\<not> i < j"
  then consider "i = j" | "j < i" by linarith
  then show False
  proof cases
    case 1
    with assms show ?thesis by simp
  next
    case 2
    from sorted_positions(2) [OF s 2 assms(2)] assms(4,5) show ?thesis by simp
  qed
qed

lemma equal_importance_timestamp_order:
  assumes s: "sorted_wrt orderedBefore rows"
    and "i < length rows" "j < length rows"
    and "snd (rows ! i) = snd (rows ! j)"
    and "m_importance (fst (rows ! i)) = m_importance (fst (rows ! j))"
    and "m_timestamp (fst (rows ! j)) < m_timestamp (fst (rows ! i))"
  shows "i < j"
proof (rule ccontr)
  assume "\<not> i < j"
  then consider "i = j" | "j < i" by linarith
  then show False
  proof cases
    case 1
    with assms show ?thesis by simp
  next
    case 2
    from sorted_positions(3) [OF s 2 assms(2)] assms(4,5,6) show ?thesis by simp
  qed
qed

text \<open>
  Claim C6.  When the index accepts the query, \<open>searchMemories\<close> returns at most \<open>limit\<close>
  rows, and they are the first \<open>limit\<close> of a list \<open>full\<close> that holds every row of
  \<^verbatim>\<open>memories\<close> the index matches, once, with its rank.  In this list, and so in the result,
  a row never stands behind a row of greater rank value (the index gives the better match the
  smaller value); of two rows of equal rank the one of smaller importance never stands
  first; of two rows of equal rank and importance the one with the earlier time stamp never
  stands first.  So in the result a row of smaller rank value stands before a row of greater
  one; of two rows with equal rank, the one with the larger importance stands first, whatever
  their time stamps; and of two rows with equal rank and importance, the one with the later
  time stamp stands first.
\<close>

theorem searchMemories_ordered:
  assumes "searchMemories engine db query limit = Inr rows"
  shows "length rows \<le> limit \<and>
         (\<forall>i j. i < j \<and> j < length rows \<longrightarrow>
            snd (rows ! i) \<le> snd (rows ! j) \<and>
            (snd (rows ! i) = snd (rows ! j) \<longrightarrow>
               m_importance (fst (rows ! j)) \<le> m_importance (fst (rows ! i)) \<and>
               (m_importance (fst (rows ! i)) = m_importance (fst (rows ! j)) \<longrightarrow>
                  m_timestamp (fst (rows ! j)) \<le> m_timestamp (fst (rows ! i))))) \<and>
         (\<forall>i j. i < length rows \<and> j < length rows \<and> snd (rows ! i) < snd (rows ! j) \<longrightarrow> i < j) \<and>
         (\<forall>i j. i < length rows \<and> j < length rows \<and> snd (rows ! i) = snd (rows ! j) \<and>
                m_importance (fst (rows ! j)) < m_importance (fst (rows ! i)) \<longrightarrow> i < j) \<and>
         (\<forall>i j. i < length rows \<and> j < length rows \<and> snd (rows ! i) = snd (rows ! j) \<and>
                m_importance (fst (rows ! i)) = m_importance (fst (rows ! j)) \<and>
                m_timestamp (fst (rows ! j)) < m_timestamp (fst (rows ! i)) \<longrightarrow> i < j) \<and>
         (\<exists>rank full. engine db query = Some rank \<and> rows = take limit full \<and>
            mset full =
              image_mset (\<lambda>r. (r, the (rank (rowid r))))
                (filter_mset (\<lambda>r. \<exists>k. rank (rowid r) = Some k) (mset (memories db))) \<and>
            (\<forall>i j. i < j \<and> j < length full \<longrightarrow>
               snd (full ! i) \<le> snd (full ! j) \<and>
               (snd (full ! i) = snd (full ! j) \<longrightarrow>
                  m_importance (fst (full ! j)) \<le> m_importance (fst (full ! i)) \<and>
                  (m_importance (fst (full ! i)) = m_importance (fst (full ! j)) \<longrightarrow>
                     m_timestamp (fst (full ! j)) \<le> m_timestamp (fst (full ! i))))))"
proof -
  let ?full = "\<lambda>rank. orderBy (matchingRows rank (memories db))"
  from assms obtain rank where rank: "engine db query = Some rank"
    and rows: "rows = take limit (?full rank)"
    by (auto simp: searchMemories_def split: option.splits)
  have sf: "sorted_wrt orderedBefore (?full rank)" by (rule sorted_orderBy)
  have s: "sorted_wrt orderedBefore rows"
    unfolding rows using sf by (rule sorted_wrt_take)
  have len: "length rows \<le> limit" by (simp add: rows)
  have ms: "mset (?full rank) =
              image_mset (\<lambda>r. (r, the (rank (rowid r))))
                (filter_mset (\<lambda>r. \<exists>k. rank (rowid r) = Some k) (mset (memories db)))"
    by (simp only: mset_orderBy mset_matchingRows)
  have pf: "\<forall>i j. i < j \<and> j < length (?full rank) \<longrightarrow>
               snd (?full rank ! i) \<le> snd (?full rank ! j) \<and>
               (snd (?full rank ! i) = snd (?full rank ! j) \<longrightarrow>
                  m_importance (fst (?full rank ! j)) \<le> m_importance (fst (?full rank ! i)) \<and>
                  (m_importance (fst (?full rank ! i)) = m_importance (fst (?full rank ! j)) \<longrightarrow>
                     m_timestamp (fst (?full rank ! j)) \<le> m_timestamp (fst (?full rank ! i))))"
    using sorted_positions [OF sf] by blast
  have pr: "\<forall>i j. i < j \<and> j < length rows \<longrightarrow>
            snd (rows ! i) \<le> snd (rows ! j) \<and>
            (snd (rows ! i) = snd (rows ! j) \<longrightarrow>
               m_importance (fst (rows ! j)) \<le> m_importance (fst (rows ! i)) \<and>
               (m_importance (fst (rows ! i)) = m_importance (fst (rows ! j)) \<longrightarrow>
                  m_timestamp (fst (rows ! j)) \<le> m_timestamp (fst (rows ! i))))"
    using sorted_positions [OF s] by blast
  have p1: "\<forall>i j. i < length rows \<and> j < length rows \<and> snd (rows ! i) < snd (rows ! j) \<longrightarrow> i < j"
    using better_rank_first [OF s] by blast
  have p2: "\<forall>i j. i < length rows \<and> j < length rows \<and> snd (rows ! i) = snd (rows ! j) \<and>
                m_importance (fst (rows ! j)) < m_importance (fst (rows ! i)) \<longrightarrow> i < j"
    using equal_rank_importance_order [OF s] by blast
  have p3: "\<forall>i j. i < length rows \<and> j < length rows \<and> snd (rows ! i) = snd (rows ! j) \<and>
                m_importance (fst (rows ! i)) = m_importance (fst (rows ! j)) \<and>
                m_timestamp (fst (rows ! j)) < m_timestamp (fst (rows ! i)) \<longrightarrow> i < j"
    using equal_importance_timestamp_order [OF s] by blast
  from rank rows ms pf
  have ex: "\<exists>rank full. engine db query = Some rank \<and> rows = take limit full \<and>
            mset full =
              image_mset (\<lambda>r. (r, the (rank (rowid r))))
                (filter_mset (\<lambda>r. \<exists>k. rank (rowid r) = Some k) (mset (memories db))) \<and>
            (\<forall>i j. i < j \<and> j < length full \<longrightarrow>
               snd (full ! i) \<le> snd (full ! j) \<and>
               (snd (full ! i) = snd (full ! j) \<longrightarrow>
                  m_importance (fst (full ! j)) \<le> m_importance (fst (full ! i)) \<and>
                  (m_importance (fst (full ! i)) = m_importance (fst (full ! j)) \<longrightarrow>
                     m_timestamp (fst (full ! j)) \<le> m_timestamp (fst (full ! i)))))"
    by blast
  from len pr p1 p2 p3 ex show ?thesis by (intro conjI)
qed

theorem searchMemories_ordered_witness:
  "searchMemories exampleEngine searchDb ''api'' 20 =
     Inr [(rowC, - 2), (rowA, - 1), (rowD, - 1), (rowB, - 1)] \<and>
   searchMemories exampleEngine searchDb ''api'' 3 = Inr [(rowC, - 2), (rowA, - 1), (rowD, - 1)] \<and>
   map rowid (memories searchDb) = [1, 2, 3, 4, 5] \<and>
   map rowid [rowC, rowA, rowD, rowB] = [4, 2, 3, 1] \<and>
   map m_importance [rowC, rowA, rowD, rowB] = [2, 5, 3, 3] \<and>
   map m_timestamp [rowC, rowA, rowD, rowB] =
     [''2025-12-20 12:00:00'', ''2026-01-10 12:00:00'', ''2026-02-05 12:00:00'',
      ''2026-02-01 12:00:00''] \<and>
   m_timestamp rowC < m_timestamp rowA \<and> m_timestamp rowA < m_timestamp rowB \<and>
   m_timestamp rowB < m_timestamp rowD"
proof -
  have e: "searchMemories exampleEngine searchDb ''api'' 20 =
     Inr [(rowC, - 2), (rowA, - 1), (rowD, - 1), (rowB, - 1)]"
    by code_simp
  have e3: "searchMemories exampleEngine searchDb ''api'' 3 =
     Inr [(rowC, - 2), (rowA, - 1), (rowD, - 1)]"
    by code_simp
  have f: "map rowid (memories searchDb) = [1, 2, 3, 4, 5]"
    "map rowid [rowC, rowA, rowD, rowB] = [4, 2, 3, 1]"
    "map m_importance [rowC, rowA, rowD, rowB] = [2, 5, 3, 3]"
    "map m_timestamp [rowC, rowA, rowD, rowB] =
     [''2025-12-20 12:00:00'', ''2026-01-10 12:00:00'', ''2026-02-05 12:00:00'',
      ''2026-02-01 12:00:00'']"
    "m_timestamp rowC < m_timestamp rowA" "m_timestamp rowA < m_timestamp rowB"
    "m_timestamp rowB < m_timestamp rowD"
    by code_simp+
  from searchMemories_ordered [OF e] e e3 f show ?thesis by simp
qed

section \<open>Pattern grouping\<close>

lemma set_foldl_setAdd: "set (foldl setAdd acc xs) = set acc \<union> set xs"
  by (induction xs arbitrary: acc) (auto simp: setAdd_def)

lemma distinct_foldl_setAdd: "distinct acc \<Longrightarrow> distinct (foldl setAdd acc xs)"
  by (induction xs arbitrary: acc) (auto simp: setAdd_def)

lemma set_newSet: "set (newSet xs) = set xs"
  by (simp add: newSet_def set_foldl_setAdd)

lemma distinct_newSet: "distinct (newSet xs)"
  by (simp add: newSet_def distinct_foldl_setAdd)

lemma length_newSet: "length (newSet xs) = card (set xs)"
  using distinct_card [OF distinct_newSet, of xs] by (simp add: set_newSet)

lemma distinct_extractKeywords: "distinct (extractKeywords c)"
  by (simp add: extractKeywords_def distinct_newSet)

definition itemsOf :: "grouped \<Rightarrow> string \<Rightarrow> Learning list" where
  "itemsOf g k = (case map_of g k of None \<Rightarrow> [] | Some items \<Rightarrow> items)"

lemma keys_groupPush:
  "map fst (groupPush g k l) = (if k \<in> set (map fst g) then map fst g else map fst g @ [k])"
proof -
  have "map fst (map (\<lambda>(k', items). if k' = k then (k', items @ [l]) else (k', items)) g) = map fst g"
    by (induction g) auto
  then show ?thesis by (simp add: groupPush_def)
qed

lemma distinct_groupPush: "distinct (map fst g) \<Longrightarrow> distinct (map fst (groupPush g k l))"
  by (simp add: keys_groupPush)

lemma map_of_push_existing:
  "map_of (map (\<lambda>(k', items). if k' = k then (k', items @ [l]) else (k', items)) g) x =
     (if x = k then map_option (\<lambda>items. items @ [l]) (map_of g k) else map_of g x)"
  by (induction g) auto

lemma map_of_groupPush:
  "map_of (groupPush g k l) x = (if x = k then Some (itemsOf g k @ [l]) else map_of g x)"
proof (cases "k \<in> fst ` set g")
  case True
  then obtain items where "map_of g k = Some items"
    by (metis domD dom_map_of_conv_image_fst)
  with True show ?thesis
    by (simp add: groupPush_def map_of_push_existing itemsOf_def)
next
  case False
  then have "map_of g k = None" by (simp add: map_of_eq_None_iff)
  with False show ?thesis
    by (auto simp: groupPush_def itemsOf_def map_of_append map_add_def split: option.splits)
qed

lemma itemsOf_groupPush:
  "itemsOf (groupPush g k l) x = (if x = k then itemsOf g k @ [l] else itemsOf g x)"
  by (simp add: itemsOf_def map_of_groupPush)

lemma fold_groupPush:
  assumes "distinct ks"
  shows "map_of (foldl (\<lambda>g' k. groupPush g' k l) g ks) x =
           (if x \<in> set ks then Some (itemsOf g x @ [l]) else map_of g x)"
  using assms
proof (induction ks arbitrary: g)
  case Nil
  then show ?case by simp
next
  case (Cons k ks)
  then have "map_of (foldl (\<lambda>g' k. groupPush g' k l) (groupPush g k l) ks) x =
     (if x \<in> set ks then Some (itemsOf (groupPush g k l) x @ [l]) else map_of (groupPush g k l) x)"
    by simp
  with Cons.prems show ?case
    by (auto simp: itemsOf_groupPush map_of_groupPush)
qed

lemma distinct_fold_groupPush:
  "distinct (map fst g) \<Longrightarrow> distinct (map fst (foldl (\<lambda>g' k. groupPush g' k l) g ks))"
  by (induction ks arbitrary: g) (simp_all add: distinct_groupPush)

text \<open>\<open>has k l\<close>: the keyword \<open>k\<close> is among the keywords of the learning \<open>l\<close>.\<close>

abbreviation has :: "string \<Rightarrow> Learning \<Rightarrow> bool" where
  "has k l \<equiv> k \<in> set (extractKeywords (content l))"

lemma map_of_groupLearning:
  "map_of (groupLearning g l) x = (if has x l then Some (itemsOf g x @ [l]) else map_of g x)"
  unfolding groupLearning_def by (rule fold_groupPush) (rule distinct_extractKeywords)

lemma distinct_groupLearning:
  "distinct (map fst g) \<Longrightarrow> distinct (map fst (groupLearning g l))"
  unfolding groupLearning_def by (rule distinct_fold_groupPush)

lemma map_of_fold_groupLearning:
  "map_of (foldl groupLearning g ls) x =
     (if filter (has x) ls = [] then map_of g x else Some (itemsOf g x @ filter (has x) ls))"
proof (induction ls arbitrary: g)
  case Nil
  then show ?case by simp
next
  case (Cons l ls)
  have "map_of (foldl groupLearning (groupLearning g l) ls) x =
     (if filter (has x) ls = [] then map_of (groupLearning g l) x
      else Some (itemsOf (groupLearning g l) x @ filter (has x) ls))"
    by (rule Cons.IH)
  then show ?case
    by (simp add: map_of_groupLearning itemsOf_def)
qed

lemma distinct_fold_groupLearning:
  "distinct (map fst g) \<Longrightarrow> distinct (map fst (foldl groupLearning g ls))"
  by (induction ls arbitrary: g) (simp_all add: distinct_groupLearning)

lemma map_of_groupByKeyword:
  "map_of (groupByKeyword ls) k =
     (if filter (has k) ls = [] then None else Some (filter (has k) ls))"
  by (simp add: groupByKeyword_def map_of_fold_groupLearning itemsOf_def)

lemma distinct_groupByKeyword: "distinct (map fst (groupByKeyword ls))"
  by (simp add: groupByKeyword_def distinct_fold_groupLearning)

lemma entry_groupByKeyword:
  "(k, items) \<in> set (groupByKeyword ls) \<longleftrightarrow> items = filter (has k) ls \<and> items \<noteq> []"
  using map_of_eq_Some_iff [OF distinct_groupByKeyword, of ls k items]
  by (auto simp: map_of_groupByKeyword split: if_splits)

lemma map_path_uniqueLearnings_aux:
  "set ps \<subseteq> path ` set items \<Longrightarrow>
   map path (List.map_filter (\<lambda>p. find (\<lambda>l. path l = p) items) ps) = ps"
proof (induction ps)
  case Nil
  then show ?case by simp
next
  case (Cons p ps)
  then obtain l where "l \<in> set items" "path l = p" by auto
  then obtain l' where "find (\<lambda>l. path l = p) items = Some l'"
    by (cases "find (\<lambda>l. path l = p) items") (auto simp: find_None_iff)
  moreover from this have "path l' = p" by (auto simp: find_Some_iff)
  ultimately show ?case using Cons by simp
qed

lemma map_path_uniqueLearnings: "map path (uniqueLearnings items) = newSet (map path items)"
  unfolding uniqueLearnings_def
  by (rule map_path_uniqueLearnings_aux) (simp add: set_newSet)

lemma length_uniqueLearnings: "length (uniqueLearnings items) = card (path ` set items)"
  using arg_cong [OF map_path_uniqueLearnings, of length items]
  by (simp add: length_newSet)

lemma card_paths_le_length: "card (path ` set items) \<le> length items"
  by (metis card_length length_map set_map)

lemma patternFor_Some:
  "patternFor (k, items) = Some p \<longleftrightarrow>
     3 \<le> card (path ` set items) \<and>
     p = \<lparr>theme = stripHash k, occurrences = card (path ` set items),
          learnings = uniqueLearnings items, insight = generateInsight k (uniqueLearnings items)\<rparr>"
  using card_paths_le_length [of items]
  by (auto simp: patternFor_def Let_def length_uniqueLearnings)

lemma patternFor_None: "patternFor (k, items) = None \<longleftrightarrow> card (path ` set items) < 3"
  using card_paths_le_length [of items]
  by (auto simp: patternFor_def Let_def length_uniqueLearnings)

lemma docs_as_filter: "{l \<in> set ls. has k l} = set (filter (has k) ls)"
  by auto

lemma retained_iff:
  "retained ls k \<longleftrightarrow> 3 \<le> card (path ` {l \<in> set ls. k \<in> set (extractKeywords (content l))})"
proof -
  have "retained ls k \<longleftrightarrow>
        (\<exists>items. (k, items) \<in> set (groupByKeyword ls) \<and> patternFor (k, items) \<noteq> None)"
    unfolding retained_def list_ex_iff by force
  also have "\<dots> \<longleftrightarrow> filter (has k) ls \<noteq> [] \<and> 3 \<le> card (path ` set (filter (has k) ls))"
    by (auto simp: entry_groupByKeyword patternFor_None not_less)
  also have "\<dots> \<longleftrightarrow> 3 \<le> card (path ` set (filter (has k) ls))"
  proof (cases "filter (has k) ls = []")
    case True
    then have "card (path ` set (filter (has k) ls)) = 0" by (simp only: set_simps image_empty card.empty)
    with True show ?thesis by simp
  next
    case False
    then show ?thesis by simp
  qed
  finally show ?thesis by (simp only: docs_as_filter)
qed

lemma set_identifyPatterns:
  "set (identifyPatterns ls) = {p. \<exists>e\<in>set (groupByKeyword ls). patternFor e = Some p}"
  by (simp add: identifyPatterns_def set_map_filter)

text \<open>
  Claim C3.  A keyword is retained exactly when the learnings that contain it have at least
  three distinct paths.  A retained keyword gives a pattern with its theme (the keyword
  without a leading \<^verbatim>\<open>#\<close>) and that number as its occurrences, and no pattern of the output
  comes from anything but a retained keyword: a keyword in two documents gives none, a
  keyword in three gives one.
\<close>

theorem keyword_threshold:
  "(retained ls k \<longleftrightarrow> 3 \<le> card (path ` {l \<in> set ls. k \<in> set (extractKeywords (content l))})) \<and>
   (retained ls k \<longrightarrow>
      (\<exists>p\<in>set (identifyPatterns ls). theme p = stripHash k \<and>
          occurrences p = card (path ` {l \<in> set ls. k \<in> set (extractKeywords (content l))}))) \<and>
   (\<forall>p\<in>set (identifyPatterns ls). \<exists>k'. retained ls k' \<and> theme p = stripHash k' \<and>
          occurrences p = card (path ` {l \<in> set ls. k' \<in> set (extractKeywords (content l))}))"
proof (intro conjI impI ballI)
  show "retained ls k \<longleftrightarrow> 3 \<le> card (path ` {l \<in> set ls. k \<in> set (extractKeywords (content l))})"
    by (rule retained_iff)
next
  assume "retained ls k"
  then obtain items where e: "(k, items) \<in> set (groupByKeyword ls)" and "patternFor (k, items) \<noteq> None"
    by (auto simp: retained_def list_ex_iff)
  then obtain p where p: "patternFor (k, items) = Some p" by auto
  from e have items: "items = filter (has k) ls" by (simp add: entry_groupByKeyword)
  from p have "theme p = stripHash k" "occurrences p = card (path ` set items)"
    by (simp_all add: patternFor_Some)
  moreover from e p have "p \<in> set (identifyPatterns ls)"
    by (auto simp: set_identifyPatterns)
  ultimately show "\<exists>p\<in>set (identifyPatterns ls). theme p = stripHash k \<and>
          occurrences p = card (path ` {l \<in> set ls. k \<in> set (extractKeywords (content l))})"
    unfolding docs_as_filter items by blast
next
  fix p
  assume "p \<in> set (identifyPatterns ls)"
  then obtain k' items where e: "(k', items) \<in> set (groupByKeyword ls)"
    and p: "patternFor (k', items) = Some p"
    by (auto simp: set_identifyPatterns)
  from e have items: "items = filter (has k') ls" by (simp add: entry_groupByKeyword)
  from e p have "retained ls k'" by (force simp: retained_def list_ex_iff)
  moreover from p have "theme p = stripHash k'" "occurrences p = card (path ` set items)"
    by (simp_all add: patternFor_Some)
  ultimately show "\<exists>k'. retained ls k' \<and> theme p = stripHash k' \<and>
          occurrences p = card (path ` {l \<in> set ls. k' \<in> set (extractKeywords (content l))})"
    unfolding docs_as_filter items by blast
qed

text \<open>
  A week of five learnings without ratings: three carry the tag \<^verbatim>\<open>#bug\<close>, two the tag
  \<^verbatim>\<open>#perf\<close>.
\<close>

definition weekCorpus :: "Learning list" where
  "weekCorpus =
     [\<lparr>fileName = ''2026-01-27_crash.md'', path = ''LEARNING/ALGORITHM/2026-01/2026-01-27_crash.md'',
       date = ''2026-01-27'', title = ''Crash on save'', content = ''Crash on save #bug'',
       category = ALGORITHM, rating = None\<rparr>,
      \<lparr>fileName = ''2026-01-28_parser.md'', path = ''LEARNING/ALGORITHM/2026-01/2026-01-28_parser.md'',
       date = ''2026-01-28'', title = ''Parser loops'', content = ''Parser loops #bug'',
       category = ALGORITHM, rating = None\<rparr>,
      \<lparr>fileName = ''2026-01-29_cache.md'', path = ''LEARNING/ALGORITHM/2026-01/2026-01-29_cache.md'',
       date = ''2026-01-29'', title = ''Slow cache'', content = ''Slow cache #perf'',
       category = ALGORITHM, rating = None\<rparr>,
      \<lparr>fileName = ''2026-01-30_quota.md'', path = ''LEARNING/SYSTEM/2026-01/2026-01-30_quota.md'',
       date = ''2026-01-30'', title = ''Quota off by one'', content = ''Quota off by one #bug'',
       category = SYSTEM, rating = None\<rparr>,
      \<lparr>fileName = ''2026-01-31_index.md'', path = ''LEARNING/SYSTEM/2026-01/2026-01-31_index.md'',
       date = ''2026-01-31'', title = ''Index scan'', content = ''Index scan #perf'',
       category = SYSTEM, rating = None\<rparr>]"

theorem keyword_threshold_witness:
  "retained weekCorpus ''#bug'' \<and>
   3 \<le> card (path ` {l \<in> set weekCorpus. ''#bug'' \<in> set (extractKeywords (content l))}) \<and>
   \<not> retained weekCorpus ''#perf'' \<and>
   card (path ` {l \<in> set weekCorpus. ''#perf'' \<in> set (extractKeywords (content l))}) < 3 \<and>
   (\<exists>p\<in>set (identifyPatterns weekCorpus). theme p = ''bug'' \<and> occurrences p = 3) \<and>
   ''perf'' \<notin> theme ` set (identifyPatterns weekCorpus)"
proof -
  have b: "retained weekCorpus ''#bug''" by code_simp
  have p: "\<not> retained weekCorpus ''#perf''" by code_simp
  have t: "map theme (identifyPatterns weekCorpus) = [''bug'', ''bug'']" by code_simp
  have o: "map occurrences (identifyPatterns weekCorpus) = [3, 3]" by code_simp
  from t have "theme ` set (identifyPatterns weekCorpus) = {''bug''}"
    by (metis list.set(1) list.set(2) set_map insert_absorb2)
  then have n: "''perf'' \<notin> theme ` set (identifyPatterns weekCorpus)" by simp
  from t o obtain p1 p2 where "identifyPatterns weekCorpus = [p1, p2]"
    "theme p1 = ''bug''" "occurrences p1 = 3"
    by (cases "identifyPatterns weekCorpus") auto
  then have e: "\<exists>p\<in>set (identifyPatterns weekCorpus). theme p = ''bug'' \<and> occurrences p = 3"
    by simp
  from keyword_threshold [of weekCorpus "''#bug''"] keyword_threshold [of weekCorpus "''#perf''"] b p n e
  show ?thesis by (simp add: not_le)
qed

text \<open>
  A tag is a piece of the text it is found in, so a text with the tag \<^verbatim>\<open>#bug\<close> contains
  the vocabulary term \<^verbatim>\<open>bug\<close>: whenever the tag is retained, the term is retained as well,
  and the output has at least two patterns with the theme \<^verbatim>\<open>bug\<close>.
\<close>

lemma hashtag_sublist: "h \<in> set (hashtags c) \<Longrightarrow> \<exists>pre post. c = pre @ h @ post"
proof (induction c rule: hashtags.induct)
  case 1
  then show ?case by simp
next
  case (2 c cs)
  show ?case
  proof (cases "c = CHR ''#'' \<and> takeWhile tagChar cs \<noteq> []")
    case True
    with "2.prems" consider "h = c # takeWhile tagChar cs" | "h \<in> set (hashtags (dropWhile tagChar cs))"
      by auto
    then show ?thesis
    proof cases
      case 1
      have "c # cs = [] @ (c # takeWhile tagChar cs) @ dropWhile tagChar cs" by simp
      with 1 show ?thesis by blast
    next
      case 2
      with "2.IH"(1) [OF True] obtain pre post where "dropWhile tagChar cs = pre @ h @ post"
        by blast
      then have "c # cs = (c # takeWhile tagChar cs @ pre) @ h @ post"
        by (metis append_Cons append_assoc takeWhile_dropWhile_id)
      then show ?thesis by blast
    qed
  next
    case False
    with "2.prems" have "h \<in> set (hashtags cs)" by auto
    with "2.IH"(2) [OF False] obtain pre post where "cs = pre @ h @ post" by blast
    then have "c # cs = (c # pre) @ h @ post" by simp
    then show ?thesis by blast
  qed
qed

lemma startsWith_append: "startsWith (t @ post) t"
  by (simp add: startsWith_def)

lemma startsWith_includesJS: "startsWith s t \<Longrightarrow> includesJS s t"
  by (cases s) (simp_all add: startsWith_def)

lemma includesJS_append: "includesJS (pre @ t @ post) t"
proof (induction pre)
  case Nil
  then show ?case by (simp add: startsWith_includesJS startsWith_append)
next
  case (Cons a pre)
  then show ?case by simp
qed

lemma tag_bug_contains_term:
  assumes "''#bug'' \<in> set (hashtags c)"
  shows "includesJS (toLowerCase c) ''bug''"
proof -
  from hashtag_sublist [OF assms] obtain pre post where "c = pre @ ''#bug'' @ post" by blast
  then have "toLowerCase c = toLowerCase pre @ toLowerCase ''#bug'' @ toLowerCase post"
    by (simp add: toLowerCase_def)
  moreover have "toLowerCase ''#bug'' = ''#'' @ ''bug''" by code_simp
  ultimately have "toLowerCase c = (toLowerCase pre @ ''#'') @ ''bug'' @ toLowerCase post"
    by simp
  then show ?thesis by (metis includesJS_append)
qed

lemma tag_bug_has_term:
  assumes "''#bug'' \<in> set (extractKeywords c)"
  shows "''bug'' \<in> set (extractKeywords c)"
proof -
  have "''#bug'' \<notin> set techTerms" by (simp add: techTerms_def)
  with assms have "''#bug'' \<in> set (hashtags c)"
    by (auto simp: extractKeywords_def set_newSet)
  then have "includesJS (toLowerCase c) ''bug''" by (rule tag_bug_contains_term)
  moreover have "''bug'' \<in> set techTerms" by (simp add: techTerms_def)
  ultimately show ?thesis by (simp add: extractKeywords_def set_newSet)
qed

lemma retained_tag_bug_term:
  assumes "retained ls ''#bug''"
  shows "retained ls ''bug''"
proof -
  have "path ` {l \<in> set ls. ''#bug'' \<in> set (extractKeywords (content l))} \<subseteq>
        path ` {l \<in> set ls. ''bug'' \<in> set (extractKeywords (content l))}"
    using tag_bug_has_term by blast
  then have "card (path ` {l \<in> set ls. ''#bug'' \<in> set (extractKeywords (content l))}) \<le>
             card (path ` {l \<in> set ls. ''bug'' \<in> set (extractKeywords (content l))})"
    by (intro card_mono) simp_all
  with assms show ?thesis by (simp add: retained_iff)
qed

lemma length_filter_map_filter:
  "length (filter P (List.map_filter f xs)) =
   length (filter (\<lambda>x. case f x of None \<Rightarrow> False | Some y \<Rightarrow> P y) xs)"
  by (induction xs) (auto split: option.splits)

lemma two_in_filter:
  assumes "a \<in> set xs" "b \<in> set xs" "a \<noteq> b" "Q a" "Q b"
  shows "2 \<le> length (filter Q xs)"
proof -
  from assms have "{a, b} \<subseteq> set (filter Q xs)" by simp
  then have "card {a, b} \<le> card (set (filter Q xs))" by (intro card_mono) simp_all
  also have "\<dots> \<le> length (filter Q xs)" by (rule card_length)
  finally show ?thesis using assms(3) by simp
qed

lemma tag_bug_gives_two_groups:
  assumes "retained ls ''#bug''"
  shows "2 \<le> length (filter (\<lambda>p. theme p = ''bug'') (identifyPatterns ls))"
proof -
  let ?Q = "\<lambda>e. case patternFor e of None \<Rightarrow> False | Some p \<Rightarrow> theme p = ''bug''"
  from assms obtain i1 where e1: "(''#bug'', i1) \<in> set (groupByKeyword ls)"
    and p1: "patternFor (''#bug'', i1) \<noteq> None"
    by (auto simp: retained_def list_ex_iff)
  from retained_tag_bug_term [OF assms] obtain i2 where e2: "(''bug'', i2) \<in> set (groupByKeyword ls)"
    and p2: "patternFor (''bug'', i2) \<noteq> None"
    by (auto simp: retained_def list_ex_iff)
  from p1 obtain r1 where r1: "patternFor (''#bug'', i1) = Some r1" by auto
  then have "theme r1 = ''bug''" by (simp add: patternFor_Some)
  with r1 have q1: "?Q (''#bug'', i1)" by simp
  from p2 obtain r2 where r2: "patternFor (''bug'', i2) = Some r2" by auto
  then have "theme r2 = ''bug''" by (simp add: patternFor_Some)
  with r2 have q2: "?Q (''bug'', i2)" by simp
  have "(''#bug'', i1) \<noteq> (''bug'', i2)" by simp
  from two_in_filter [of _ "groupByKeyword ls" _ ?Q, OF e1 e2 this q1 q2]
  have "2 \<le> length (filter ?Q (groupByKeyword ls))" .
  then show ?thesis
    by (simp add: identifyPatterns_def filter_sort length_filter_map_filter)
qed


text \<open>
  Claim C1.  On this week the synthesis gives two pattern groups, not one: the tag
  \<^verbatim>\<open>#bug\<close> is a keyword, and so is the vocabulary term \<^verbatim>\<open>bug\<close>, which every text with
  the tag contains; both entries of the map pass the threshold and both get the theme
  \<^verbatim>\<open>bug\<close>.  No learning is listed with a low rating.
\<close>

theorem tag_and_term_give_two_groups:
  "map (\<lambda>l. extractKeywords (content l)) weekCorpus =
     [[''#bug'', ''bug''], [''#bug'', ''bug''], [''#perf''], [''#bug'', ''bug''], [''#perf'']] \<and>
   map (\<lambda>p. (theme p, occurrences p, insight p))
     (patterns (synthesize weekCorpus ''2026-01-25'' ''2026-02-01'')) =
     [(''bug'', 3, ''Pattern of similar bugs - consider preventive measures or improved testing''),
      (''bug'', 3, ''Pattern of similar bugs - consider preventive measures or improved testing'')] \<and>
   lowRatings (synthesize weekCorpus ''2026-01-25'' ''2026-02-01'') = []"
  by code_simp

section \<open>The linear search\<close>

text \<open>
  What the loop of \<open>search\<close> pushes for one file when the pattern's \<^verbatim>\<open>lastIndex\<close> is
  \<open>0\<close> at the start of the file.  It always is: a file without matches leaves it at \<open>0\<close>,
  and so does the computation of a score.
\<close>

definition fileResult ::
  "host \<Rightarrow> fileSystem \<Rightarrow> string \<Rightarrow> string \<Rightarrow> regExp \<Rightarrow> string \<times> fileType \<Rightarrow> SearchResult option" where
  "fileResult h fs MEMORY_DIR query rx e =
     (case e of (fp, t) \<Rightarrow>
        (case searchFile fs fp query rx 0 of
           ((ms, lastIndex'), out) \<Rightarrow>
             if 0 < length ms
             then Some \<lparr>filePath = fp,
                        relativePath = replaceFirst fp (MEMORY_DIR @ ''/'') [],
                        type = t,
                        timestamp = extractDate h fp,
                        score = foldl (\<lambda>sum m. sum + matchCount rx (matchLine m)) 0 ms,
                        matches = ms\<rparr>
             else None))"

lemma searchLines_no_match:
  "searchLines rx lines i lastIndex = ([], final) \<Longrightarrow>
   final = (if i < length lines then 0 else lastIndex)"
proof (induction rx lines i lastIndex rule: searchLines.induct)
  case (1 rx lines i lastIndex)
  show ?case
  proof (cases "i < length lines")
    case False
    with "1.prems" show ?thesis by (simp add: searchLines.simps [of rx lines i lastIndex])
  next
    case inb: True
    obtain m l' where t: "test rx (lines ! i) lastIndex = (m, l')" by fastforce
    show ?thesis
    proof (cases m)
      case True
      with t inb "1.prems" show ?thesis
        by (simp add: searchLines.simps [of rx lines i lastIndex] split: prod.splits)
    next
      case False
      with t have l': "l' = 0" by (auto simp: test_def split: option.splits)
      from False t inb "1.prems"
      have r: "searchLines rx lines (Suc i) l' = ([], final)"
        by (simp add: searchLines.simps [of rx lines i lastIndex])
      from "1.IH"(2) [OF inb t [symmetric] _ r] False
      have "final = (if Suc i < length lines then 0 else l')" by simp
      with l' inb show ?thesis by simp
    qed
  qed
qed

lemma splitLines_nonempty: "splitLines s \<noteq> []"
  by (induction s) (auto split: list.splits)

lemma searchFile_console: "snd (searchFile fs fp query rx lastIndex) = []"
  by (simp add: searchFile_def split: option.splits)

lemma searchFile_no_match:
  assumes "searchFile fs fp query rx 0 = (([], final), out)"
  shows "final = 0"
proof (cases "readFileSync fs fp")
  case None
  with assms show ?thesis by (simp add: searchFile_def)
next
  case (Some body)
  with assms have "searchLines rx (splitLines body) 0 0 = ([], final)"
    by (simp add: searchFile_def)
  from searchLines_no_match [OF this] splitLines_nonempty [of body] show ?thesis by simp
qed

lemma searchLoop_files:
  "searchLoop h fs MEMORY_DIR query rx sinceDate files 0 =
     (List.map_filter (fileResult h fs MEMORY_DIR query rx)
        (filter (\<lambda>e. \<not> skippedBySince h sinceDate (fst e)) files), [])"
proof (induction files)
  case Nil
  then show ?case by simp
next
  case (Cons e files)
  obtain fp t where e: "e = (fp, t)" by (cases e)
  show ?case
  proof (cases "skippedBySince h sinceDate fp")
    case True
    with Cons e show ?thesis by simp
  next
    case False
    obtain ms final out where sf: "searchFile fs fp query rx 0 = ((ms, final), out)"
      by (metis surj_pair)
    have out: "out = []" using searchFile_console [of fs fp query rx 0] sf by simp
    show ?thesis
    proof (cases "ms = []")
      case True
      with sf have "final = 0" by (simp add: searchFile_no_match)
      with True False sf out Cons e show ?thesis
        by (simp add: fileResult_def)
    next
      case ms: False
      with False sf out Cons e show ?thesis
        by (simp add: fileResult_def)
    qed
  qed
qed

lemma search_files:
  "search h fs MEMORY_DIR rx query typeFilter sinceDate =
     (sort_key (\<lambda>r. - int (score r))
        (List.map_filter (fileResult h fs MEMORY_DIR query rx)
           (filter (\<lambda>e. \<not> skippedBySince h sinceDate (fst e))
              (getFilesToSearch fs MEMORY_DIR typeFilter))), [])"
  by (simp add: search_def searchLoop_files)

lemma fileResult_path: "fileResult h fs MEMORY_DIR query rx e = Some r \<Longrightarrow> filePath r = fst e"
  by (auto simp: fileResult_def split: prod.splits if_splits)

lemma filter_fileResults:
  "filter (\<lambda>r. P (filePath r)) (List.map_filter (fileResult h fs MEMORY_DIR query rx) es) =
   List.map_filter (fileResult h fs MEMORY_DIR query rx) (filter (\<lambda>e. P (fst e)) es)"
proof (induction es)
  case Nil
  then show ?case by simp
next
  case (Cons e es)
  then show ?case
    by (cases "fileResult h fs MEMORY_DIR query rx e") (auto dest: fileResult_path)
qed

lemma filter_search:
  "filter (\<lambda>r. P (filePath r)) (fst (search h fs MEMORY_DIR rx query typeFilter sinceDate)) =
   sort_key (\<lambda>r. - int (score r))
     (List.map_filter (fileResult h fs MEMORY_DIR query rx)
        (filter (\<lambda>e. \<not> skippedBySince h sinceDate (fst e) \<and> P (fst e))
           (getFilesToSearch fs MEMORY_DIR typeFilter)))"
  by (simp add: search_files filter_sort filter_fileResults)

text \<open>
  Claim C7.  A file whose path gives no date is not touched by the date filter: what the
  search returns for it under any cutoff is what it returns without a cutoff.  A file whose
  date is valid and before a valid cutoff is in no result.
\<close>

theorem since_filter:
  "(extractDate h fp = None \<longrightarrow>
      filter (\<lambda>r. filePath r = fp) (fst (search h fs MEMORY_DIR rx query typeFilter (Some since))) =
      filter (\<lambda>r. filePath r = fp) (fst (search h fs MEMORY_DIR rx query typeFilter None))) \<and>
   (\<forall>d s. extractDate h fp = Some (Date d) \<and> since = Date s \<and> d < s \<longrightarrow>
      fp \<notin> filePath ` set (fst (search h fs MEMORY_DIR rx query typeFilter (Some since))))"
proof (intro conjI impI allI)
  assume n: "extractDate h fp = None"
  have eq: "(\<lambda>e. \<not> skippedBySince h (Some since) (fst e) \<and> fst e = fp) =
        (\<lambda>e. \<not> skippedBySince h None (fst e) \<and> fst e = fp)"
    using n by (auto simp: skippedBySince_def)
  show "filter (\<lambda>r. filePath r = fp) (fst (search h fs MEMORY_DIR rx query typeFilter (Some since))) =
      filter (\<lambda>r. filePath r = fp) (fst (search h fs MEMORY_DIR rx query typeFilter None))"
    by (simp only: filter_search [where P = "\<lambda>x. x = fp"] eq)
next
  fix d s
  assume a: "extractDate h fp = Some (Date d) \<and> since = Date s \<and> d < s"
  then have eq: "(\<lambda>e. \<not> skippedBySince h (Some since) (fst e) \<and> fst e = fp) = (\<lambda>e. False)"
    by (auto simp: skippedBySince_def)
  have "filter (\<lambda>r. filePath r = fp) (fst (search h fs MEMORY_DIR rx query typeFilter (Some since))) = []"
    unfolding filter_search [where P = "\<lambda>x. x = fp"] eq by simp
  then show "fp \<notin> filePath ` set (fst (search h fs MEMORY_DIR rx query typeFilter (Some since)))"
    by (auto simp: filter_empty_conv)
qed

text \<open>
  An example corpus of four algorithm learnings.  The host of the example counts days from
  the start of 2026 in months of 31 days.  One file has no date in its path, one cannot be
  read; the query is \<^verbatim>\<open>retry\<close>.
\<close>

definition exampleHost :: host where
  "exampleHost =
     \<lparr>dateLocal = (\<lambda>y m d. Date ((int y - 2026) * 372 + m * 31 + int d)),
      dateParse = (\<lambda>s. if matchesPrefix isoDatePattern s \<and> length s = 10
                         then Date ((int (parseInt (take 4 s)) - 2026) * 372 +
                                    (int (parseInt (take 2 (drop 5 s))) - 1) * 31 +
                                    int (parseInt (take 2 (drop 8 s))))
                         else InvalidDate)\<rparr>"

definition memoryDir :: string where
  "memoryDir = ''/home/u/.claude/MEMORY''"


definition algorithmDir :: string where
  "algorithmDir = ''/home/u/.claude/MEMORY/LEARNING/ALGORITHM''"

definition retryPath :: string where
  "retryPath = ''/home/u/.claude/MEMORY/LEARNING/ALGORITHM/2026-01/2026-01-10_retry.md''"

definition backoffPath :: string where
  "backoffPath = ''/home/u/.claude/MEMORY/LEARNING/ALGORITHM/2026-02/2026-02-03_backoff.md''"

definition lockedPath :: string where
  "lockedPath = ''/home/u/.claude/MEMORY/LEARNING/ALGORITHM/2026-02/2026-02-05_locked.md''"

definition ideasPath :: string where
  "ideasPath = ''/home/u/.claude/MEMORY/LEARNING/ALGORITHM/inbox/ideas.md''"

definition retryText :: string where
  "retryText = ''retry retry'' @ [CHR 0x0A] @ ''retry''"

definition backoffText :: string where
  "backoffText = ''# Backoff'' @ [CHR 0x0A] @ ''Rating: 7/10'' @ [CHR 0x0A] @ ''backoff, then retry''"

definition exampleContent :: "string \<Rightarrow> string option" where
  "exampleContent p =
     (if p = retryPath then Some retryText
      else if p = backoffPath then Some backoffText
      else if p = ideasPath then Some ''retry budget''
      else None)"

definition exampleFiles :: fileSystem where
  "exampleFiles =
     \<lparr>existsSync = (\<lambda>p. p = algorithmDir),
      readdirSync =
        (\<lambda>p. if p = algorithmDir then Some [''2026-01'', ''2026-02'', ''inbox'']
              else if p = algorithmDir @ ''/2026-01'' then Some [''2026-01-10_retry.md'']
              else if p = algorithmDir @ ''/2026-02''
              then Some [''2026-02-03_backoff.md'', ''2026-02-05_locked.md'', ''draft.txt'']
              else None),
      statSync =
        (\<lambda>p. if p = retryPath
              then Some \<lparr>time = 10, fullYear = 2026, monthIndex = 0, dayOfMonth = 10\<rparr>
              else if p = backoffPath
              then Some \<lparr>time = 34, fullYear = 2026, monthIndex = 1, dayOfMonth = 3\<rparr>
              else if p = lockedPath
              then Some \<lparr>time = 36, fullYear = 2026, monthIndex = 1, dayOfMonth = 5\<rparr>
              else None),
      readFileSync = exampleContent,
      globScan =
        (\<lambda>pattern cwd. if cwd = algorithmDir \<and> pattern = ''**/*.md''
              then [''2026-01/2026-01-10_retry.md'', ''2026-02/2026-02-03_backoff.md'',
                    ''2026-02/2026-02-05_locked.md'', ''inbox/ideas.md'']
              else [])\<rparr>"

definition retryResult :: SearchResult where
  "retryResult =
     \<lparr>filePath = retryPath,
      relativePath = ''LEARNING/ALGORITHM/2026-01/2026-01-10_retry.md'',
      type = ALGORITHM_t, timestamp = Some (Date 10), score = 2,
      matches =
        [\<lparr>lineNumber = 1, before = [], matchLine = ''retry retry'', after = [''retry'']\<rparr>]\<rparr>"

definition backoffResult :: SearchResult where
  "backoffResult =
     \<lparr>filePath = backoffPath,
      relativePath = ''LEARNING/ALGORITHM/2026-02/2026-02-03_backoff.md'',
      type = ALGORITHM_t, timestamp = Some (Date 34), score = 1,
      matches =
        [\<lparr>lineNumber = 3, before = [''# Backoff'', ''Rating: 7/10''],
          matchLine = ''backoff, then retry'', after = []\<rparr>]\<rparr>"

definition ideasResult :: SearchResult where
  "ideasResult =
     \<lparr>filePath = ideasPath,
      relativePath = ''LEARNING/ALGORITHM/inbox/ideas.md'',
      type = ALGORITHM_t, timestamp = None, score = 1,
      matches =
        [\<lparr>lineNumber = 1, before = [], matchLine = ''retry budget'', after = []\<rparr>]\<rparr>"


lemma example_search:
  "search exampleHost exampleFiles memoryDir (literalRegExp ''retry'') ''retry'' None None =
     ([retryResult, backoffResult, ideasResult], [])"
  by code_simp

lemma example_paths:
  "filePath retryResult = retryPath" "filePath backoffResult = backoffPath"
  "filePath ideasResult = ideasPath"
  "retryPath \<noteq> ideasPath" "backoffPath \<noteq> ideasPath" "retryPath \<noteq> backoffPath"
  by (simp_all add: retryResult_def backoffResult_def ideasResult_def retryPath_def
      backoffPath_def ideasPath_def)

theorem since_filter_witness:
  "extractDate exampleHost ideasPath = None \<and>
   extractDate exampleHost retryPath = Some (Date 10) \<and>
   filter (\<lambda>r. filePath r = ideasPath)
     (fst (search exampleHost exampleFiles memoryDir (literalRegExp ''retry'') ''retry'' None
        (Some (Date 34)))) = [ideasResult] \<and>
   retryPath \<notin> filePath `
     set (fst (search exampleHost exampleFiles memoryDir (literalRegExp ''retry'') ''retry'' None
        (Some (Date 34))))"
proof -
  have i: "extractDate exampleHost ideasPath = None" by code_simp
  have r: "extractDate exampleHost retryPath = Some (Date 10)" by code_simp
  have n: "filter (\<lambda>r. filePath r = ideasPath)
             (fst (search exampleHost exampleFiles memoryDir (literalRegExp ''retry'') ''retry'' None None)) =
           [ideasResult]"
    by (simp add: example_search example_paths)
  from since_filter [of exampleHost ideasPath exampleFiles memoryDir "literalRegExp ''retry''"
      "''retry''" None "Date 34"]
    since_filter [of exampleHost retryPath exampleFiles memoryDir "literalRegExp ''retry''"
      "''retry''" None "Date 34"]
    i r n
  show ?thesis by simp
qed

text \<open>
  Claim C2.  The first example file has the term twice on its first line and once on its
  second, three matches in all, and its score is 2: after the match on the first line the
  pattern's \<^verbatim>\<open>lastIndex\<close> is 5, so the test of the second line starts behind its only match
  and fails, and the line is not among the matches that the score sums over.
\<close>

theorem score_misses_line_after_match:
  "readFileSync exampleFiles retryPath = Some retryText \<and>
   splitLines retryText = [''retry retry'', ''retry''] \<and>
   map (matchCount (literalRegExp ''retry'')) (splitLines retryText) = [2, 1] \<and>
   test (literalRegExp ''retry'') ''retry retry'' 0 = (True, 5) \<and>
   test (literalRegExp ''retry'') ''retry'' 5 = (False, 0) \<and>
   map (\<lambda>r. (filePath r, score r, map lineNumber (matches r)))
     (fst (search exampleHost exampleFiles memoryDir (literalRegExp ''retry'') ''retry'' None None)) =
     [(retryPath, 2, [1]), (backoffPath, 1, [3]), (ideasPath, 1, [1])]"
proof -
  have "readFileSync exampleFiles retryPath = Some retryText" by code_simp
  moreover have "splitLines retryText = [''retry retry'', ''retry'']" by code_simp
  moreover have "map (matchCount (literalRegExp ''retry'')) [''retry retry'', ''retry''] = [2, 1]"
    by code_simp
  moreover have "test (literalRegExp ''retry'') ''retry retry'' 0 = (True, 5)" by code_simp
  moreover have "test (literalRegExp ''retry'') ''retry'' 5 = (False, 0)" by code_simp
  ultimately show ?thesis
    by (simp add: example_search retryResult_def backoffResult_def ideasResult_def)
qed

section \<open>Files that cannot be read\<close>

































end
